theory Spec2Isabelle
  imports Main "HOL-Library.Word" "HOL-Library.List_Lexorder" "HOL-Library.Char_ord"
    "HOL-Library.Multiset"
begin

section \<open>The Vulkan render engine of the Nova renderer: data model\<close>

text \<open>
  The engine (\<^verbatim>\<open>vulkan_render_engine\<close>) is embedded as pure functions over explicit
  state. Every C++ exception is a value of \<open>exception\<close>; a function that can throw
  returns \<open>exception + 'a\<close>. Behaviour that C++ leaves undefined (a remainder by zero,
  \<^verbatim>\<open>operator[]\<close> past the end of a vector) is the value \<open>undefined_behaviour\<close>, so that
  it is never mistaken for a normal return.
\<close>

text \<open>
  The result codes of the Vulkan calls the engine reads. The two engine exceptions that the
  macro \<^verbatim>\<open>NOVA_THROW_IF_VK_ERROR\<close> throws carry a message made of the source position and
  the name of the result code; the result code stands for that message.
\<close>

datatype VkResult =
    VK_SUCCESS
  | VK_NOT_READY
  | VK_TIMEOUT
  | VK_SUBOPTIMAL_KHR
  | VK_ERROR_OUT_OF_HOST_MEMORY
  | VK_ERROR_OUT_OF_DEVICE_MEMORY
  | VK_ERROR_INITIALIZATION_FAILED
  | VK_ERROR_DEVICE_LOST
  | VK_ERROR_SURFACE_LOST_KHR
  | VK_ERROR_OUT_OF_DATE_KHR

datatype exception =
    runtime_error string
  | render_engine_initialization_exception VkResult
  | render_engine_rendering_exception VkResult
  | shader_layout_creation_failed string
  | pass_ordering_exception "string list"
  | out_of_range
  | undefined_behaviour

text \<open>
  Modelled from the spec: the macro \<^verbatim>\<open>NOVA_THROW_IF_VK_ERROR\<close>, whose definition is in
  a header that is not part of the sources at hand. Any result other than success from an
  object-creation or submission call is escalated at once as the exception named.
\<close>

definition NOVA_THROW_IF_VK_ERROR :: "VkResult \<Rightarrow> (VkResult \<Rightarrow> exception) \<Rightarrow> exception + unit" where
  "NOVA_THROW_IF_VK_ERROR r exc = (if r \<noteq> VK_SUCCESS then Inl (exc r) else Inr ())"

subsection \<open>Mesh options and their validation\<close>

text \<open>\<^verbatim>\<open>settings_options::mesh_options\<close>: the three sizes, in bytes.\<close>

record mesh_options =
  buffer_part_size :: nat
  new_buffer_size :: nat
  max_total_allocation :: nat

text \<open>\<^verbatim>\<open>std::to_string\<close> on an unsigned integer: its decimal digits.\<close>

definition digit_char :: "nat \<Rightarrow> char" where
  "digit_char d = char_of (48 + d)"

function to_string :: "nat \<Rightarrow> string" where
  "to_string n =
     (if n < 10 then [digit_char n] else to_string (n div 10) @ [digit_char (n mod 10)])"
  by pat_completeness auto
termination
  by (relation "measure id") auto

declare to_string.simps [simp del]

text \<open>
  The C++ operator \<^verbatim>\<open>%\<close> on unsigned integers. A zero divisor is undefined behaviour
  (a hardware trap on the usual targets), not a \<^verbatim>\<open>std::runtime_error\<close>.
\<close>

definition cpp_mod :: "nat \<Rightarrow> nat \<Rightarrow> exception + nat" where
  "cpp_mod a b = (if b = 0 then Inl undefined_behaviour else Inr (a mod b))"

text \<open>
  \<^verbatim>\<open>vulkan_render_engine::validate_mesh_options\<close>. The size of a \<^verbatim>\<open>full_vertex\<close> record
  is a compile-time constant whose declaration is not part of the sources at hand; it is the
  parameter \<open>sizeof_full_vertex\<close>. The third message prints \<open>max_total_allocation\<close>
  where it announces the value of \<open>new_buffer_size\<close>, as the source does.
\<close>

definition validate_mesh_options :: "nat \<Rightarrow> mesh_options \<Rightarrow> exception + unit" where
  "validate_mesh_options sizeof_full_vertex options =
     (case cpp_mod (buffer_part_size options) sizeof_full_vertex of
        Inl e \<Rightarrow> Inl e
      | Inr r1 \<Rightarrow>
          if r1 \<noteq> 0 then
            Inl (runtime_error
              (''mesh.buffer_part_size must be a multiple of sizeof(full_vertex) (which equals ''
                @ to_string sizeof_full_vertex @ '')''))
          else
            (case cpp_mod (new_buffer_size options) (buffer_part_size options) of
               Inl e \<Rightarrow> Inl e
             | Inr r2 \<Rightarrow>
                 if r2 \<noteq> 0 then
                   Inl (runtime_error
                     (''mesh.new_buffer_size must be a multiple of mesh.buffer_part_size (which equals ''
                       @ to_string (buffer_part_size options) @ '')''))
                 else
                   (case cpp_mod (max_total_allocation options) (new_buffer_size options) of
                      Inl e \<Rightarrow> Inl e
                    | Inr r3 \<Rightarrow>
                        if r3 \<noteq> 0 then
                          Inl (runtime_error
                            (''mesh.max_total_allocation must be a multiple of mesh.new_buffer_size (which equals ''
                              @ to_string (max_total_allocation options) @ '')''))
                        else Inr ())))"

text \<open>The field an error message is about: the message starts with the field's name.\<close>

definition names_field :: "string \<Rightarrow> exception + unit \<Rightarrow> bool" where
  "names_field field r =
     (case r of Inl (runtime_error msg) \<Rightarrow> take (length field) msg = field | _ \<Rightarrow> False)"

subsection \<open>Logging\<close>

text \<open>\<^verbatim>\<open>NOVA_LOG(level) << ...\<close> appends a line to the log; it never changes control flow.\<close>

datatype log_level = TRACE | DEBUG | INFO | WARN | ERROR

type_synonym log_entry = "log_level \<times> string"

subsection \<open>Unordered maps\<close>

text \<open>
  A \<^verbatim>\<open>std::unordered_map\<close> holds one value per key. The order in which it is iterated is
  left open by the language: the library fixes it from the hashes of the keys, the number
  of buckets and the history of insertions. The tables of the engine, which are searched by
  key or whose entries are all treated alike, are embedded as association lists with
  distinct keys; an assignment places a new key in ascending key order, which is one of
  the orders a run of the program may show. What is stated below about the teardown of
  these tables is stated for every engine state, so for tables listed in any order. The
  one table whose iteration order decides a result, the table handed to the pass ordering,
  is not embedded this way: its iteration order is a parameter (see \<open>iteration_order\<close>).
\<close>

type_synonym ('k, 'v) unordered_map = "('k \<times> 'v) list"

text \<open>\<^verbatim>\<open>m.find(k)\<close>: \<open>None\<close> stands for \<^verbatim>\<open>m.end()\<close>.\<close>

definition um_find :: "('k, 'v) unordered_map \<Rightarrow> 'k \<Rightarrow> 'v option" where
  "um_find m k = map_of m k"

text \<open>\<^verbatim>\<open>m[k] = v\<close>.\<close>

fun um_assign :: "'k::linorder \<Rightarrow> 'v \<Rightarrow> ('k, 'v) unordered_map \<Rightarrow> ('k, 'v) unordered_map" where
  "um_assign k v [] = [(k, v)]"
| "um_assign k v ((k', v') # m) =
     (if k = k' then (k, v) # m
      else if k < k' then (k, v) # (k', v') # m
      else (k', v') # um_assign k v m)"

text \<open>\<^verbatim>\<open>m.at(k)\<close> throws \<^verbatim>\<open>std::out_of_range\<close> for a key that is absent.\<close>

definition um_at :: "('k, 'v) unordered_map \<Rightarrow> 'k \<Rightarrow> exception + 'v" where
  "um_at m k = (case map_of m k of None \<Rightarrow> Inl out_of_range | Some v \<Rightarrow> Inr v)"

text \<open>\<^verbatim>\<open>m[k].push_back(x)\<close> on a map of vectors: a missing key starts an empty vector.\<close>

definition um_push_back ::
  "'k::linorder \<Rightarrow> 'v \<Rightarrow> ('k, 'v list) unordered_map \<Rightarrow> ('k, 'v list) unordered_map" where
  "um_push_back k x m =
     (case um_find m k of None \<Rightarrow> um_assign k [x] m | Some xs \<Rightarrow> um_assign k (xs @ [x]) m)"

subsection \<open>Shader reflection and resource bindings\<close>

datatype VkDescriptorType =
    VK_DESCRIPTOR_TYPE_SAMPLER
  | VK_DESCRIPTOR_TYPE_COMBINED_IMAGE_SAMPLER
  | VK_DESCRIPTOR_TYPE_SAMPLED_IMAGE
  | VK_DESCRIPTOR_TYPE_STORAGE_IMAGE
  | VK_DESCRIPTOR_TYPE_UNIFORM_TEXEL_BUFFER
  | VK_DESCRIPTOR_TYPE_STORAGE_TEXEL_BUFFER
  | VK_DESCRIPTOR_TYPE_UNIFORM_BUFFER
  | VK_DESCRIPTOR_TYPE_STORAGE_BUFFER
  | VK_DESCRIPTOR_TYPE_UNIFORM_BUFFER_DYNAMIC
  | VK_DESCRIPTOR_TYPE_STORAGE_BUFFER_DYNAMIC
  | VK_DESCRIPTOR_TYPE_INPUT_ATTACHMENT

text \<open>
  \<^verbatim>\<open>VkDescriptorSetLayoutBinding\<close>, and \<^verbatim>\<open>vk_resource_binding\<close>, which adds the descriptor
  set index (the field \<^verbatim>\<open>set\<close>) to it. A null \<^verbatim>\<open>pImmutableSamplers\<close> is \<open>None\<close>.
\<close>

record VkDescriptorSetLayoutBinding =
  binding :: nat
  descriptorType :: VkDescriptorType
  descriptorCount :: nat
  stageFlags :: "32 word"
  pImmutableSamplers :: "nat option"

record vk_resource_binding = VkDescriptorSetLayoutBinding +
  set_index :: nat

text \<open>\<^verbatim>\<open>vk_resource_binding::operator==\<close> and \<^verbatim>\<open>operator!=\<close>.\<close>

definition binding_eq :: "vk_resource_binding \<Rightarrow> vk_resource_binding \<Rightarrow> bool" where
  "binding_eq this other \<longleftrightarrow>
     set_index other = set_index this \<and> binding other = binding this
     \<and> descriptorCount other = descriptorCount this
     \<and> descriptorType other = descriptorType this"

definition binding_neq :: "vk_resource_binding \<Rightarrow> vk_resource_binding \<Rightarrow> bool" where
  "binding_neq this other \<longleftrightarrow> \<not> binding_eq this other"

text \<open>
  What \<^verbatim>\<open>spirv_cross\<close> reflects from a shader module: a \<^verbatim>\<open>Resource\<close> with its name and
  the two decorations the engine reads, and the \<^verbatim>\<open>ShaderResources\<close> lists the engine walks.
  A SPIR-V binary is held together with what the reflection reports for it.
\<close>

record resource =
  res_name :: string
  DecorationDescriptorSet :: nat
  DecorationBinding :: nat

record shader_resources =
  sampled_images :: "resource list"
  uniform_buffers :: "resource list"

record shader_source =
  source :: "32 word list"
  get_shader_resources :: shader_resources

type_synonym bindings_map = "(string, vk_resource_binding) unordered_map"

text \<open>\<^verbatim>\<open>vulkan_render_engine::add_resource_to_bindings\<close>: the new map and the lines logged.\<close>

definition add_resource_to_bindings :: "bindings_map \<Rightarrow> resource \<Rightarrow> bindings_map \<times> log_entry list" where
  "add_resource_to_bindings bindings res =
     (let new_binding =
            \<lparr>binding = DecorationBinding res,
             descriptorType = VK_DESCRIPTOR_TYPE_COMBINED_IMAGE_SAMPLER,
             descriptorCount = 1,
             stageFlags = 0,
             pImmutableSamplers = None,
             set_index = DecorationDescriptorSet res\<rparr>
      in case um_find bindings (res_name res) of
           None \<Rightarrow> (um_assign (res_name res) new_binding bindings, [])
         | Some existing_binding \<Rightarrow>
             if binding_neq existing_binding new_binding then
               (bindings,
                [(ERROR, ''You have two different uniforms named '' @ res_name res
                   @ '' in different shader stages. This is not allowed. Use unique names'')])
             else (bindings, []))"

fun add_resources :: "bindings_map \<Rightarrow> resource list \<Rightarrow> bindings_map \<times> log_entry list" where
  "add_resources bindings [] = (bindings, [])"
| "add_resources bindings (r # rs) =
     (case add_resource_to_bindings bindings r of
        (bindings', l) \<Rightarrow>
          (case add_resources bindings' rs of (bindings'', l') \<Rightarrow> (bindings'', l @ l')))"

text \<open>
  \<^verbatim>\<open>vulkan_render_engine::get_shader_module_descriptors\<close>: the sampled images first, then
  the uniform buffers.
\<close>

definition get_shader_module_descriptors ::
  "shader_source \<Rightarrow> bindings_map \<Rightarrow> bindings_map \<times> log_entry list" where
  "get_shader_module_descriptors spirv bindings =
     (let resources = get_shader_resources spirv in
      case add_resources bindings (sampled_images resources) of
        (bindings', l) \<Rightarrow>
          (case add_resources bindings' (uniform_buffers resources) of
             (bindings'', l') \<Rightarrow> (bindings'', l @ l')))"

subsection \<open>Descriptor set layouts\<close>

record VkDescriptorSetLayoutCreateInfo =
  bindingCount :: nat
  pBindings :: "VkDescriptorSetLayoutBinding list"

text \<open>
  A \<^verbatim>\<open>VkDescriptorSetLayout\<close> handle is identified with the create info the device received
  for it; the result code of \<^verbatim>\<open>vkCreateDescriptorSetLayout\<close> is not read by the source.
\<close>

type_synonym VkDescriptorSetLayout = VkDescriptorSetLayoutCreateInfo

definition VK_SHADER_STAGE_ALL :: "32 word" where
  "VK_SHADER_STAGE_ALL = 0x7FFFFFFF"

text \<open>The first loop of \<^verbatim>\<open>create_descriptor_set_layouts\<close>, over the named bindings.\<close>

fun group_bindings_by_set ::
  "(string \<times> vk_resource_binding) list \<Rightarrow> (nat, VkDescriptorSetLayoutBinding list) unordered_map
     \<Rightarrow> (nat, VkDescriptorSetLayoutBinding list) unordered_map" where
  "group_bindings_by_set [] bindings_by_set = bindings_by_set"
| "group_bindings_by_set (named_binding # rest) bindings_by_set =
     (let b = snd named_binding;
          new_binding =
            \<lparr>binding = binding b,
             descriptorType = descriptorType b,
             descriptorCount = descriptorCount b,
             stageFlags = VK_SHADER_STAGE_ALL,
             pImmutableSamplers = pImmutableSamplers b\<rparr>
      in group_bindings_by_set rest (um_push_back (set_index b) new_binding bindings_by_set))"

text \<open>
  The second loop, over \<open>i = 0, 1, ...\<close> below the number of populated sets: \<open>Inl i\<close> when
  set \<open>i\<close> has no bindings (the source throws there), else the create infos in index order.
\<close>

fun collect_create_infos ::
  "(nat, VkDescriptorSetLayoutBinding list) unordered_map \<Rightarrow> nat list
     \<Rightarrow> nat + VkDescriptorSetLayoutCreateInfo list" where
  "collect_create_infos bindings_by_set [] = Inr []"
| "collect_create_infos bindings_by_set (i # rest) =
     (case um_find bindings_by_set i of
        None \<Rightarrow> Inl i
      | Some bindings \<Rightarrow>
          (case collect_create_infos bindings_by_set rest of
             Inl j \<Rightarrow> Inl j
           | Inr infos \<Rightarrow> Inr (\<lparr>bindingCount = length bindings, pBindings = bindings\<rparr> # infos)))"

text \<open>\<^verbatim>\<open>vulkan_render_engine::create_descriptor_set_layouts\<close>.\<close>

definition create_descriptor_set_layouts ::
  "bindings_map \<Rightarrow> (exception + VkDescriptorSetLayout list) \<times> log_entry list" where
  "create_descriptor_set_layouts all_bindings =
     (let bindings_by_set = group_bindings_by_set all_bindings [] in
      case collect_create_infos bindings_by_set [0 ..< length bindings_by_set] of
        Inl i \<Rightarrow>
          (Inl (shader_layout_creation_failed (''Descriptor set '' @ to_string i @ '' not present'')),
           [(ERROR, ''Could not get information for descriptor set '' @ to_string i
               @ ''; most likely you skipped a descriptor set in your shader. Ensure that all shaders for this pipeline together don't have any gaps in the descriptor sets they declare'')])
      | Inr dsl_create_infos \<Rightarrow> (Inr dsl_create_infos, []))"

text \<open>The descriptor-set indices that the merged bindings populate.\<close>

definition populated_sets :: "bindings_map \<Rightarrow> nat set" where
  "populated_sets all_bindings = set (map (set_index \<circ> snd) all_bindings)"

text \<open>The layout bindings of descriptor set \<open>i\<close>, in the iteration order of the map.\<close>

definition layout_bindings_of_set :: "bindings_map \<Rightarrow> nat \<Rightarrow> VkDescriptorSetLayoutBinding list" where
  "layout_bindings_of_set all_bindings i =
     map (\<lambda>named_binding.
            \<lparr>binding = binding (snd named_binding),
             descriptorType = descriptorType (snd named_binding),
             descriptorCount = descriptorCount (snd named_binding),
             stageFlags = VK_SHADER_STAGE_ALL,
             pImmutableSamplers = pImmutableSamplers (snd named_binding)\<rparr>)
       (filter (\<lambda>named_binding. set_index (snd named_binding) = i) all_bindings)"


subsection \<open>The device\<close>

text \<open>
  GPU objects are handles; handle \<open>0\<close> is \<^verbatim>\<open>VK_NULL_HANDLE\<close>. The device and the memory
  allocator library are outside the engine: what they answer is an input. A \<open>driver\<close>
  gives, for each kind of call whose result the engine reads, the result of that call.
\<close>

type_synonym handle = nat

record driver =
  vmaCreateBuffer_result :: VkResult
  vkCreateRenderPass_result :: VkResult
  vkCreateShaderModule_result :: VkResult
  vkCreatePipelineLayout_result :: VkResult
  vkCreateGraphicsPipelines_result :: VkResult
  vkAcquireNextImageKHR_result :: VkResult
  vkAcquireNextImageKHR_image :: nat
  vkQueueSubmit_result :: VkResult

text \<open>The commands recorded into the mesh upload command buffer.\<close>

record VkBufferCopy =
  srcOffset :: nat
  dstOffset :: nat
  size_bytes :: nat

datatype vk_cmd =
    add_barriers_before_data_upload
  | vkCmdCopyBuffer handle handle VkBufferCopy
  | add_barriers_after_data_upload

text \<open>
  The calls the engine makes on the device, in the order it makes them. A copy-queue
  submission carries the commands recorded and the fence to signal; a graphics-queue
  submission carries the command buffer, the semaphore waited on, the semaphore signalled
  and the fence. \<open>vkCreateGraphicsPipelines\<close> carries the render pass the pipeline is
  built for and the handle of the pipeline it creates.
\<close>

datatype vk_call =
    vkDestroyRenderPass handle
  | vkDestroyPipeline handle
  | vkDestroyImageView handle
  | vmaDestroyImage handle handle
  | vmaCreateImage handle
  | vkCreateImageView handle
  | vkCreateRenderPass handle
  | vkCreateGraphicsPipelines handle handle
  | vmaCreateBuffer handle
  | vkWaitForFences handle
  | vkAcquireNextImageKHR handle
  | vkResetFences handle
  | vkQueueSubmit_copy "vk_cmd list" handle
  | vkQueueSubmit_graphics handle handle handle handle
  | vkQueuePresentKHR handle nat

subsection \<open>Shaderpack data and compiled objects\<close>

datatype pixel_format_enum = RGBA8 | RGBA16F | RGBA32F | Depth | DepthStencil

datatype VkFormat =
    VK_FORMAT_R8G8B8A8_UNORM
  | VK_FORMAT_R16G16B16A16_SFLOAT
  | VK_FORMAT_R32G32B32A32_SFLOAT
  | VK_FORMAT_D32_SFLOAT
  | VK_FORMAT_D24_UNORM_S8_UINT
  | VK_FORMAT_R10X6G10X6_UNORM_2PACK16

text \<open>\<^verbatim>\<open>vulkan_render_engine::to_vk_format\<close>.\<close>

fun to_vk_format :: "pixel_format_enum \<Rightarrow> VkFormat" where
  "to_vk_format RGBA8 = VK_FORMAT_R8G8B8A8_UNORM"
| "to_vk_format RGBA16F = VK_FORMAT_R16G16B16A16_SFLOAT"
| "to_vk_format RGBA32F = VK_FORMAT_R32G32B32A32_SFLOAT"
| "to_vk_format Depth = VK_FORMAT_D32_SFLOAT"
| "to_vk_format DepthStencil = VK_FORMAT_D24_UNORM_S8_UINT"

text \<open>
  The descriptors of a shaderpack, with the fields the engine code at hand reads. The
  textures a pass writes (\<open>texture_outputs\<close>) are read by the pass ordering only.
\<close>

record texture_resource_data =
  tex_name :: string
  pixel_format :: pixel_format_enum

record material_data =
  mat_name :: string

record input_textures =
  bound_textures :: "string list"

record render_pass_data =
  pass_name :: string
  texture_inputs :: "input_textures option"
  texture_outputs :: "string list"

record pipeline_data =
  pipeline_name :: string
  target_pass :: string
  vertex_shader :: shader_source
  geometry_shader :: "shader_source option"
  tessellation_control_shader :: "shader_source option"
  tessellation_evaluation_shader :: "shader_source option"
  fragment_shader :: "shader_source option"


record vk_texture =
  tex_data :: texture_resource_data
  image_h :: handle
  image_view :: handle
  allocation :: handle

record vk_render_pass =
  pass :: handle
  rp_data :: render_pass_data

record vk_pipeline =
  pipeline :: handle
  layout :: "VkDescriptorSetLayout list"
  pl_data :: pipeline_data

subsection \<open>Mesh data\<close>

type_synonym byte = "8 word"

text \<open>
  A \<^verbatim>\<open>full_vertex\<close> is its object representation, \<^verbatim>\<open>sizeof(full_vertex)\<close> bytes; the
  vertex array of a mesh lies in memory as the concatenation of its vertices.
\<close>

type_synonym full_vertex = "byte list"

record mesh_data =
  vertex_data :: "full_vertex list"

text \<open>
  A staging buffer (\<^verbatim>\<open>vk_buffer\<close>) with the address of its mapped region
  (\<^verbatim>\<open>alloc_info.pMappedData\<close>); a part of a megabuffer; the parts allocated to one mesh;
  a queued upload; an entry of the mesh table.
\<close>

record vk_buffer =
  buffer :: handle
  pMappedData :: handle

record mesh_buffer_part =
  part_buffer :: handle
  offset :: nat

record block_memory_allocation =
  parts :: "mesh_buffer_part list"

record staging_buffer_upload_command =
  staging_buffers :: "vk_buffer list"
  mem :: block_memory_allocation

record vk_mesh =
  memory :: block_memory_allocation
  mesh :: mesh_data

text \<open>
  The class \<^verbatim>\<open>block_allocator\<close> (the engine's \<open>mesh_manager\<close>) is not part of the sources
  at hand. Its state is a type parameter, and the members the engine uses are taken as
  parameters: \<open>allocate_mesh\<close> may throw, \<open>free\<close> returns the parts of an allocation,
  \<open>get_buffer_part_size\<close> reads the field \<^verbatim>\<open>buffer_part_size\<close>.
\<close>

record 'a block_allocator =
  allocate_mesh :: "nat \<Rightarrow> 'a \<Rightarrow> (exception + block_memory_allocation) \<times> 'a"
  free :: "block_memory_allocation \<Rightarrow> 'a \<Rightarrow> 'a"
  get_buffer_part_size :: "'a \<Rightarrow> nat"

subsection \<open>The engine state\<close>

text \<open>
  The members of \<^verbatim>\<open>vulkan_render_engine\<close> that the functions below read or write, the
  host-visible memory mapped for the staging buffers, the calls made on the device so far,
  the ERROR lines logged (progress lines at lower levels are not kept), and the next handle
  the device hands out.
\<close>

record 'a engine =
  mesh_manager :: 'a
  mesh_staging_buffers :: "vk_buffer list"
  mesh_upload_queue :: "staging_buffer_upload_command list"
  next_mesh_id :: "32 word"
  meshes :: "(32 word, vk_mesh) unordered_map"
  shaderpack_loaded :: bool
  render_passes :: "(string, vk_render_pass) unordered_map"
  render_passes_by_order :: "string list"
  pipelines :: "(string, vk_pipeline) unordered_map"
  materials :: "(string, material_data) unordered_map"
  dynamic_textures :: "(string, vk_texture) unordered_map"
  current_frame :: nat
  current_swapchain_index :: nat
  submit_fences :: "handle list"
  image_available_semaphores :: "handle list"
  render_finished_semaphores :: "handle list"
  command_buffers :: "handle list"
  mesh_rendering_done :: handle
  upload_to_megamesh_buffer_done :: handle
  mapped_memory :: "handle \<rightharpoonup> byte list"
  calls :: "vk_call list"
  log :: "log_entry list"
  next_handle :: handle

subsection \<open>More operations on unordered maps\<close>

text \<open>\<^verbatim>\<open>m.insert(std::make_pair(k, v))\<close> keeps the value of a key that is present.\<close>

definition um_insert :: "'k::linorder \<Rightarrow> 'v \<Rightarrow> ('k, 'v) unordered_map \<Rightarrow> ('k, 'v) unordered_map" where
  "um_insert k v m = (case um_find m k of None \<Rightarrow> um_assign k v m | Some _ \<Rightarrow> m)"

text \<open>\<^verbatim>\<open>m.erase(k)\<close>.\<close>

definition um_erase :: "'k \<Rightarrow> ('k, 'v) unordered_map \<Rightarrow> ('k, 'v) unordered_map" where
  "um_erase k m = filter (\<lambda>kv. fst kv \<noteq> k) m"

text \<open>\<^verbatim>\<open>v.at(i)\<close> on a vector throws \<^verbatim>\<open>std::out_of_range\<close> past the end.\<close>

definition vector_at :: "'v list \<Rightarrow> nat \<Rightarrow> exception + 'v" where
  "vector_at v i = (if i < length v then Inr (v ! i) else Inl out_of_range)"

subsection \<open>Tearing down a shaderpack\<close>




subsection \<open>Building a shaderpack\<close>

text \<open>
  \<^verbatim>\<open>create_textures\<close>: the results of the two creation calls are not read by the source.
  The device hands out the image, its allocation and its view as three fresh handles.
\<close>

fun create_textures :: "texture_resource_data list \<Rightarrow> 'a engine \<Rightarrow> 'a engine" where
  "create_textures [] e = e"
| "create_textures (texture_data # rest) e =
     create_textures rest
       (e\<lparr>dynamic_textures :=
             um_assign (tex_name texture_data)
               \<lparr>tex_data = texture_data, image_h = next_handle e,
                image_view = next_handle e + 2, allocation = next_handle e + 1\<rparr>
               (dynamic_textures e),
          calls := calls e @ [vmaCreateImage (next_handle e), vkCreateImageView (next_handle e + 2)],
          next_handle := next_handle e + 3\<rparr>)"

text \<open>
  \<^verbatim>\<open>to_vk_attachment_info\<close>: one attachment description (its format) and one attachment
  reference (its index) per name; a name that is not a dynamic texture throws.
\<close>

record VkAttachmentDescription =
  format :: VkFormat

record VkAttachmentReference =
  attachment :: nat

fun to_vk_attachment_info_loop ::
  "(string, vk_texture) unordered_map \<Rightarrow> string list
     \<Rightarrow> VkAttachmentDescription list \<Rightarrow> VkAttachmentReference list
     \<Rightarrow> exception + VkAttachmentDescription list \<times> VkAttachmentReference list" where
  "to_vk_attachment_info_loop dyn [] attachment_descriptions attachment_references =
     Inr (attachment_descriptions, attachment_references)"
| "to_vk_attachment_info_loop dyn (name # rest) attachment_descriptions attachment_references =
     (case um_at dyn name of
        Inl ex \<Rightarrow> Inl ex
      | Inr tex \<Rightarrow>
          to_vk_attachment_info_loop dyn rest
            (attachment_descriptions @ [\<lparr>format = to_vk_format (pixel_format (tex_data tex))\<rparr>])
            (attachment_references @ [\<lparr>attachment = length attachment_references\<rparr>]))"

definition to_vk_attachment_info ::
  "(string, vk_texture) unordered_map \<Rightarrow> string list
     \<Rightarrow> exception + VkAttachmentDescription list \<times> VkAttachmentReference list" where
  "to_vk_attachment_info dyn attachment_names = to_vk_attachment_info_loop dyn attachment_names [] []"

text \<open>
  The local table \<^verbatim>\<open>regular_render_passes\<close> of \<^verbatim>\<open>create_render_passes\<close> is filled by
  assignments \<^verbatim>\<open>regular_render_passes[name] = pass_data\<close> and then iterated by the pass
  ordering. It is kept as the sequence of the assignments made to it, oldest first. An
  iteration order turns that sequence into the entries of the table in the order in which
  iterating the table presents them. Which one the program shows is decided by the C++
  library, so it is an input of the model.
\<close>

type_synonym assignment_history = "(string \<times> render_pass_data) list"

type_synonym iteration_order = "assignment_history \<Rightarrow> (string \<times> render_pass_data) list"

text \<open>
  The first loop of \<^verbatim>\<open>create_render_passes\<close>: \<^verbatim>\<open>render_passes[name].data = pass_data\<close>
  (a new entry has a null pass handle) and \<^verbatim>\<open>regular_render_passes[name] = pass_data\<close>.
\<close>

definition set_pass_data ::
  "render_pass_data \<Rightarrow> (string, vk_render_pass) unordered_map \<Rightarrow> (string, vk_render_pass) unordered_map" where
  "set_pass_data pass_data m =
     (case um_find m (pass_name pass_data) of
        None \<Rightarrow> um_assign (pass_name pass_data) \<lparr>pass = 0, rp_data = pass_data\<rparr> m
      | Some rp \<Rightarrow> um_assign (pass_name pass_data) (rp\<lparr>rp_data := pass_data\<rparr>) m)"

fun insert_passes ::
  "render_pass_data list
     \<Rightarrow> (string, vk_render_pass) unordered_map \<times> assignment_history
     \<Rightarrow> (string, vk_render_pass) unordered_map \<times> assignment_history" where
  "insert_passes [] tables = tables"
| "insert_passes (pass_data # rest) (rps, regular_render_passes) =
     insert_passes rest
       (set_pass_data pass_data rps, regular_render_passes @ [(pass_name pass_data, pass_data)])"

text \<open>
  Modelled from the spec: \<^verbatim>\<open>order_passes\<close>, declared in \<^verbatim>\<open>render_graph_builder.hpp\<close>,
  which is not part of the sources at hand. It receives the name-keyed table of pass
  descriptors, here as the entries of the table in the order in which iterating it presents
  them. Pass \<open>a\<close> depends on pass \<open>b\<close> if \<open>a\<close> declares as input a texture that
  \<open>b\<close> produces. The sort is topological and stable: the next pass is always the first
  one, in the order the table presents the passes, whose producers have all been placed.
  When no pass is ready the remaining passes lie on or behind a cycle, and ordering fails
  with their names.
\<close>

definition pass_reads :: "render_pass_data \<Rightarrow> string list" where
  "pass_reads p = (case texture_inputs p of None \<Rightarrow> [] | Some inputs \<Rightarrow> bound_textures inputs)"

definition depends_on :: "render_pass_data \<Rightarrow> render_pass_data \<Rightarrow> bool" where
  "depends_on a b \<longleftrightarrow> list_ex (\<lambda>t. t \<in> set (texture_outputs b)) (pass_reads a)"

definition pass_ready :: "render_pass_data list \<Rightarrow> string list \<Rightarrow> render_pass_data \<Rightarrow> bool" where
  "pass_ready all_passes placed p \<longleftrightarrow>
     list_all (\<lambda>q. \<not> depends_on p q \<or> pass_name q \<in> set placed) all_passes"

function order_passes_loop ::
  "render_pass_data list \<Rightarrow> render_pass_data list \<Rightarrow> string list \<Rightarrow> exception + string list" where
  "order_passes_loop all_passes remaining placed =
     (if remaining = [] then Inr placed
      else
        (case find (pass_ready all_passes placed) remaining of
           None \<Rightarrow> Inl (pass_ordering_exception (map pass_name remaining))
         | Some p \<Rightarrow> order_passes_loop all_passes (remove1 p remaining) (placed @ [pass_name p])))"
  by pat_completeness auto
termination
proof (relation "measure (\<lambda>(all_passes, remaining, placed). length remaining)")
  show "wf (measure (\<lambda>(all_passes, remaining, placed). length remaining))" by simp
next
  fix all_passes remaining :: "render_pass_data list" and placed :: "string list" and p
  assume "remaining \<noteq> []" and "find (pass_ready all_passes placed) remaining = Some p"
  then have "p \<in> set remaining" by (auto simp: find_Some_iff)
  then have "length (remove1 p remaining) < length remaining"
    by (simp add: length_remove1) (cases remaining, auto)
  then show "((all_passes, remove1 p remaining, placed @ [pass_name p]), (all_passes, remaining, placed))
      \<in> measure (\<lambda>(all_passes, remaining, placed). length remaining)"
    by simp
qed

declare order_passes_loop.simps [simp del]

definition order_passes :: "(string \<times> render_pass_data) list \<Rightarrow> exception + string list" where
  "order_passes regular_render_passes =
     order_passes_loop (map snd regular_render_passes) (map snd regular_render_passes) []"

text \<open>
  The second loop of \<^verbatim>\<open>create_render_passes\<close>, over the ordered names. The attachments
  are resolved only for a pass that declares texture inputs; the create info of a pass that
  declares none keeps the attachment fields the source leaves unset.
\<close>

fun compile_passes :: "driver \<Rightarrow> string list \<Rightarrow> 'a engine \<Rightarrow> (exception + unit) \<times> 'a engine" where
  "compile_passes drv [] e = (Inr (), e)"
| "compile_passes drv (name # rest) e =
     (case um_at (render_passes e) name of
        Inl ex \<Rightarrow> (Inl ex, e)
      | Inr rp \<Rightarrow>
          (case (case texture_inputs (rp_data rp) of
                   None \<Rightarrow> Inr None
                 | Some inputs_maybe \<Rightarrow>
                     (case to_vk_attachment_info (dynamic_textures e) (bound_textures inputs_maybe) of
                        Inl ex \<Rightarrow> Inl ex
                      | Inr info \<Rightarrow> Inr (Some info))) of
             Inl ex \<Rightarrow> (Inl ex, e)
           | Inr attachments \<Rightarrow>
               (case NOVA_THROW_IF_VK_ERROR (vkCreateRenderPass_result drv)
                       render_engine_initialization_exception of
                  Inl ex \<Rightarrow> (Inl ex, e)
                | Inr u \<Rightarrow>
                    compile_passes drv rest
                      (e\<lparr>render_passes := um_assign name (rp\<lparr>pass := next_handle e\<rparr>) (render_passes e),
                         calls := calls e @ [vkCreateRenderPass (next_handle e)],
                         next_handle := Suc (next_handle e)\<rparr>))))"

text \<open>
  \<^verbatim>\<open>vulkan_render_engine::create_render_passes\<close>. The parameter \<open>iterate\<close> is the
  iteration order of the local table \<^verbatim>\<open>regular_render_passes\<close>.
\<close>

definition create_render_passes ::
  "iteration_order \<Rightarrow> driver \<Rightarrow> render_pass_data list \<Rightarrow> 'a engine
     \<Rightarrow> (exception + unit) \<times> 'a engine" where
  "create_render_passes iterate drv pass_list e =
     (case insert_passes pass_list (render_passes e, []) of
        (rps, regular_render_passes) \<Rightarrow>
          (case order_passes (iterate regular_render_passes) of
             Inl ex \<Rightarrow> (Inl ex, e\<lparr>render_passes := rps\<rparr>)
           | Inr order \<Rightarrow>
               compile_passes drv order
                 (e\<lparr>render_passes := rps, render_passes_by_order := order\<rparr>)))"

text \<open>
  \<^verbatim>\<open>create_graphics_pipelines\<close>, the body of its loop for one pipeline. The shader stages
  are compiled and reflected in the order vertex, geometry, tessellation control,
  tessellation evaluation, fragment; the bindings start empty for each pipeline. The pipeline
  layout is identified with the descriptor-set layouts it is created from.
\<close>

definition shader_stages_of :: "pipeline_data \<Rightarrow> shader_source list" where
  "shader_stages_of data =
     vertex_shader data #
       (case geometry_shader data of None \<Rightarrow> [] | Some sh \<Rightarrow> [sh]) @
       (case tessellation_control_shader data of None \<Rightarrow> [] | Some sh \<Rightarrow> [sh]) @
       (case tessellation_evaluation_shader data of None \<Rightarrow> [] | Some sh \<Rightarrow> [sh]) @
       (case fragment_shader data of None \<Rightarrow> [] | Some sh \<Rightarrow> [sh])"

fun compile_stages ::
  "driver \<Rightarrow> shader_source list \<Rightarrow> bindings_map \<Rightarrow> (exception + bindings_map) \<times> log_entry list" where
  "compile_stages drv [] bindings = (Inr bindings, [])"
| "compile_stages drv (sh # rest) bindings =
     (case NOVA_THROW_IF_VK_ERROR (vkCreateShaderModule_result drv)
             render_engine_initialization_exception of
        Inl ex \<Rightarrow> (Inl ex, [])
      | Inr u \<Rightarrow>
          (case get_shader_module_descriptors sh bindings of
             (bindings', l) \<Rightarrow>
               (case compile_stages drv rest bindings' of (r, l') \<Rightarrow> (r, l @ l'))))"

definition create_graphics_pipeline ::
  "driver \<Rightarrow> pipeline_data \<Rightarrow> 'a engine \<Rightarrow> (exception + unit) \<times> 'a engine" where
  "create_graphics_pipeline drv data e =
     (case compile_stages drv (shader_stages_of data) [] of
        (Inl ex, l) \<Rightarrow> (Inl ex, e\<lparr>log := log e @ l\<rparr>)
      | (Inr bindings, l) \<Rightarrow>
          (case create_descriptor_set_layouts bindings of
             (Inl ex, l2) \<Rightarrow> (Inl ex, e\<lparr>log := log e @ l @ l2\<rparr>)
           | (Inr layout_data, l2) \<Rightarrow>
               (case NOVA_THROW_IF_VK_ERROR (vkCreatePipelineLayout_result drv)
                       render_engine_initialization_exception of
                  Inl ex \<Rightarrow> (Inl ex, e\<lparr>log := log e @ l @ l2\<rparr>)
                | Inr u \<Rightarrow>
                    (case um_at (render_passes e) (target_pass data) of
                       Inl ex \<Rightarrow> (Inl ex, e\<lparr>log := log e @ l @ l2\<rparr>)
                     | Inr rp \<Rightarrow>
                         (case NOVA_THROW_IF_VK_ERROR (vkCreateGraphicsPipelines_result drv)
                                 render_engine_initialization_exception of
                            Inl ex \<Rightarrow> (Inl ex, e\<lparr>log := log e @ l @ l2\<rparr>)
                          | Inr u' \<Rightarrow>
                              (Inr (),
                               e\<lparr>pipelines :=
                                    um_insert (pipeline_name data)
                                      \<lparr>pipeline = next_handle e, layout = layout_data, pl_data = data\<rparr>
                                      (pipelines e),
                                  calls := calls e @ [vkCreateGraphicsPipelines (pass rp) (next_handle e)],
                                  log := log e @ l @ l2,
                                  next_handle := Suc (next_handle e)\<rparr>))))))"




subsection \<open>The staging buffer pool\<close>

text \<open>
  \<^verbatim>\<open>get_or_allocate_mesh_staging_buffer\<close>: the last buffer of the pool if there is one, else
  a new buffer of one part's size with its memory mapped. The content of freshly mapped
  memory is shown as zero bytes.
\<close>

definition get_or_allocate_mesh_staging_buffer ::
  "'a block_allocator \<Rightarrow> driver \<Rightarrow> 'a engine \<Rightarrow> (exception + vk_buffer) \<times> 'a engine" where
  "get_or_allocate_mesh_staging_buffer ba drv e =
     (if mesh_staging_buffers e \<noteq> [] then
        (Inr (last (mesh_staging_buffers e)),
         e\<lparr>mesh_staging_buffers := butlast (mesh_staging_buffers e)\<rparr>)
      else
        (case NOVA_THROW_IF_VK_ERROR (vmaCreateBuffer_result drv) render_engine_rendering_exception of
           Inl ex \<Rightarrow> (Inl ex, e)
         | Inr u \<Rightarrow>
             (Inr \<lparr>buffer = next_handle e, pMappedData = next_handle e\<rparr>,
              e\<lparr>mapped_memory :=
                   (mapped_memory e)(next_handle e \<mapsto>
                      replicate (get_buffer_part_size ba (mesh_manager e)) 0),
                calls := calls e @ [vmaCreateBuffer (next_handle e)],
                next_handle := Suc (next_handle e)\<rparr>)))"

text \<open>\<^verbatim>\<open>free_mesh_staging_buffer\<close>.\<close>

definition free_mesh_staging_buffer :: "vk_buffer \<Rightarrow> 'a engine \<Rightarrow> 'a engine" where
  "free_mesh_staging_buffer b e = e\<lparr>mesh_staging_buffers := mesh_staging_buffers e @ [b]\<rparr>"

subsection \<open>Adding and deleting meshes\<close>

text \<open>
  \<^verbatim>\<open>std::memcpy(dest, src, n)\<close> copies \<open>n\<close> bytes. \<open>dest\<close> is the region that starts at
  the destination address and \<open>src\<close> the bytes from the source address to the end of the
  object it points into; copying more than either holds is undefined behaviour.
\<close>

definition memcpy :: "byte list \<Rightarrow> byte list \<Rightarrow> nat \<Rightarrow> exception + byte list" where
  "memcpy dest src n =
     (if n \<le> length src \<and> n \<le> length dest then Inr (take n src @ drop n dest)
      else Inl undefined_behaviour)"

text \<open>The C++ operator \<^verbatim>\<open>/\<close> on unsigned integers; a zero divisor is undefined behaviour.\<close>

definition cpp_div :: "nat \<Rightarrow> nat \<Rightarrow> exception + nat" where
  "cpp_div a b = (if b = 0 then Inl undefined_behaviour else Inr (a div b))"

text \<open>
  The task that \<^verbatim>\<open>add_mesh\<close> schedules for one part: the lambda receives the staging
  buffer, the vertex at index \<open>first\<close> of the mesh's vertex array (read here as the
  address of that vertex) and \<open>num_vertices\<close>, and calls
  \<^verbatim>\<open>std::memcpy(buffer_to_upload_to->alloc_info.pMappedData, vertices_to_upload, num_vertices)\<close>.
\<close>

definition upload_task :: "vk_buffer \<Rightarrow> mesh_data \<Rightarrow> nat \<Rightarrow> nat \<Rightarrow> 'a engine \<Rightarrow> (exception + unit) \<times> 'a engine" where
  "upload_task buffer_to_upload_to input_mesh first num_vertices e =
     (if length (vertex_data input_mesh) \<le> first then (Inl undefined_behaviour, e)
      else
        (case mapped_memory e (pMappedData buffer_to_upload_to) of
           None \<Rightarrow> (Inl undefined_behaviour, e)
         | Some region \<Rightarrow>
             (case memcpy region (concat (drop first (vertex_data input_mesh))) num_vertices of
                Inl ex \<Rightarrow> (Inl ex, e)
              | Inr region' \<Rightarrow>
                  (Inr (),
                   e\<lparr>mapped_memory :=
                        (mapped_memory e)(pMappedData buffer_to_upload_to \<mapsto> region')\<rparr>))))"

text \<open>
  The loop of \<^verbatim>\<open>add_mesh\<close> over the parts of the allocation. The tasks run concurrently
  in the source and are all waited for before the function goes on; each writes the mapped
  region of its own staging buffer, so they are run here one after the other.
\<close>

fun upload_parts ::
  "'a block_allocator \<Rightarrow> driver \<Rightarrow> mesh_data \<Rightarrow> nat \<Rightarrow> nat list \<Rightarrow> vk_buffer list \<Rightarrow> 'a engine
     \<Rightarrow> (exception + vk_buffer list) \<times> 'a engine" where
  "upload_parts ba drv input_mesh num_vertices_per_part [] staging e = (Inr staging, e)"
| "upload_parts ba drv input_mesh num_vertices_per_part (i # rest) staging e =
     (case get_or_allocate_mesh_staging_buffer ba drv e of
        (Inl ex, e') \<Rightarrow> (Inl ex, e')
      | (Inr buf, e') \<Rightarrow>
          (case upload_task buf input_mesh (i * num_vertices_per_part) num_vertices_per_part e' of
             (Inl ex, e'') \<Rightarrow> (Inl ex, e'')
           | (Inr u, e'') \<Rightarrow>
               upload_parts ba drv input_mesh num_vertices_per_part rest (staging @ [buf]) e''))"

text \<open>
  \<^verbatim>\<open>vulkan_render_engine::add_mesh\<close>. \<open>sizeof_full_vertex\<close> is \<^verbatim>\<open>sizeof(full_vertex)\<close>.
  The mesh id is what \<^verbatim>\<open>next_mesh_id.fetch_add(1)\<close> returns: the value of the 32-bit
  counter before it is incremented.
\<close>

definition add_mesh ::
  "'a block_allocator \<Rightarrow> driver \<Rightarrow> nat \<Rightarrow> mesh_data \<Rightarrow> 'a engine \<Rightarrow> (exception + 32 word) \<times> 'a engine" where
  "add_mesh ba drv sizeof_full_vertex input_mesh e =
     (let vertex_size = length (vertex_data input_mesh) * sizeof_full_vertex in
      case allocate_mesh ba vertex_size (mesh_manager e) of
        (Inl ex, a') \<Rightarrow> (Inl ex, e\<lparr>mesh_manager := a'\<rparr>)
      | (Inr allocation_mem, a') \<Rightarrow>
          (case cpp_div (get_buffer_part_size ba a') sizeof_full_vertex of
             Inl ex \<Rightarrow> (Inl ex, e\<lparr>mesh_manager := a'\<rparr>)
           | Inr num_vertices_per_part \<Rightarrow>
               (case upload_parts ba drv input_mesh num_vertices_per_part
                       [0 ..< length (parts allocation_mem)] [] (e\<lparr>mesh_manager := a'\<rparr>) of
                  (Inl ex, e') \<Rightarrow> (Inl ex, e')
                | (Inr staging, e') \<Rightarrow>
                    (Inr (next_mesh_id e'),
                     e'\<lparr>mesh_upload_queue :=
                          mesh_upload_queue e' @ [\<lparr>staging_buffers = staging, mem = allocation_mem\<rparr>],
                        next_mesh_id := next_mesh_id e' + 1,
                        meshes :=
                          um_assign (next_mesh_id e') \<lparr>memory = allocation_mem, mesh = input_mesh\<rparr> (meshes e')\<rparr>))))"

text \<open>\<^verbatim>\<open>vulkan_render_engine::delete_mesh\<close>.\<close>

definition delete_mesh :: "'a block_allocator \<Rightarrow> 32 word \<Rightarrow> 'a engine \<Rightarrow> (exception + unit) \<times> 'a engine" where
  "delete_mesh ba mesh_id e =
     (case um_at (meshes e) mesh_id of
        Inl ex \<Rightarrow> (Inl ex, e)
      | Inr m \<Rightarrow>
          (Inr (),
           e\<lparr>meshes := um_erase mesh_id (meshes e),
             mesh_manager := free ba (memory m) (mesh_manager e)\<rparr>))"

subsection \<open>The per-frame upload step\<close>

text \<open>
  The inner loop of \<^verbatim>\<open>upload_new_mesh_parts\<close>: one copy per staging buffer of a command.
  \<^verbatim>\<open>cmd.mem.parts[i]\<close> past the end of the parts is undefined behaviour.
\<close>

fun record_copies :: "nat \<Rightarrow> staging_buffer_upload_command \<Rightarrow> nat list \<Rightarrow> exception + vk_cmd list" where
  "record_copies part_size cmd [] = Inr []"
| "record_copies part_size cmd (i # rest) =
     (if i < length (parts (mem cmd)) then
        (case record_copies part_size cmd rest of
           Inl ex \<Rightarrow> Inl ex
         | Inr copies \<Rightarrow>
             Inr (vkCmdCopyBuffer (buffer (staging_buffers cmd ! i)) (part_buffer (parts (mem cmd) ! i))
                    \<lparr>srcOffset = 0, dstOffset = offset (parts (mem cmd) ! i), size_bytes = part_size\<rparr>
                  # copies))
      else Inl undefined_behaviour)"

text \<open>
  The loop \<^verbatim>\<open>while(!mesh_upload_queue.empty())\<close>, run with the queue's lock held: the
  queue that is left, the commands recorded so far and the staging buffers to free.
\<close>

fun drain_upload_queue ::
  "nat \<Rightarrow> staging_buffer_upload_command list \<Rightarrow> vk_cmd list \<Rightarrow> vk_buffer list
     \<Rightarrow> exception + staging_buffer_upload_command list \<times> vk_cmd list \<times> vk_buffer list" where
  "drain_upload_queue part_size [] cmds freed_buffers = Inr ([], cmds, freed_buffers)"
| "drain_upload_queue part_size (cmd # queue) cmds freed_buffers =
     (case record_copies part_size cmd [0 ..< length (staging_buffers cmd)] of
        Inl ex \<Rightarrow> Inl ex
      | Inr copies \<Rightarrow>
          drain_upload_queue part_size queue (cmds @ copies) (freed_buffers @ staging_buffers cmd))"

text \<open>
  \<^verbatim>\<open>vulkan_render_engine::upload_new_mesh_parts\<close>, the body of the task it schedules. It
  returns the staging buffers it hands to the follow-up task, which gives them back to the
  pool once the upload fence is signalled; that task runs later and is not part of the step.
\<close>

definition upload_new_mesh_parts ::
  "'a block_allocator \<Rightarrow> 'a engine \<Rightarrow> (exception + vk_buffer list) \<times> 'a engine" where
  "upload_new_mesh_parts ba e =
     (case drain_upload_queue (get_buffer_part_size ba (mesh_manager e)) (mesh_upload_queue e)
             [add_barriers_before_data_upload] [] of
        Inl ex \<Rightarrow> (Inl ex, e)
      | Inr (queue, cmds, freed_buffers) \<Rightarrow>
          (Inr freed_buffers,
           e\<lparr>mesh_upload_queue := queue,
             calls := calls e @
               [vkWaitForFences (mesh_rendering_done e),
                vkQueueSubmit_copy (cmds @ [add_barriers_after_data_upload])
                  (upload_to_megamesh_buffer_done e)]\<rparr>))"

subsection \<open>The frame loop\<close>

text \<open>
  \<^verbatim>\<open>vulkan_render_engine::render_frame\<close>. \<open>MAX_FRAMES_IN_QUEUE\<close> is a constant of a header
  that is not part of the sources at hand. The image index is what the acquire call wrote
  to \<^verbatim>\<open>current_swapchain_index\<close>.
\<close>

definition render_frame ::
  "'a block_allocator \<Rightarrow> driver \<Rightarrow> nat \<Rightarrow> 'a engine \<Rightarrow> (exception + unit) \<times> 'a engine" where
  "render_frame ba drv MAX_FRAMES_IN_QUEUE e =
     (case vector_at (submit_fences e) (current_frame e) of
        Inl ex \<Rightarrow> (Inl ex, e)
      | Inr fence \<Rightarrow>
          (let e1 = e\<lparr>calls := calls e @ [vkWaitForFences fence]\<rparr> in
           case vector_at (image_available_semaphores e1) (current_frame e1) of
             Inl ex \<Rightarrow> (Inl ex, e1)
           | Inr image_available \<Rightarrow>
               (let acquire_result = vkAcquireNextImageKHR_result drv;
                    e2 = e1\<lparr>calls := calls e1 @ [vkAcquireNextImageKHR image_available],
                            current_swapchain_index := vkAcquireNextImageKHR_image drv\<rparr>
                in if acquire_result = VK_ERROR_OUT_OF_DATE_KHR \<or> acquire_result = VK_SUBOPTIMAL_KHR
                   then (Inr (), e2)
                   else if acquire_result \<noteq> VK_SUCCESS
                   then (Inl (render_engine_rendering_exception acquire_result), e2)
                   else
                     (let e3 = e2\<lparr>calls := calls e2 @ [vkResetFences fence]\<rparr> in
                      case upload_new_mesh_parts ba e3 of
                        (Inl ex, e4) \<Rightarrow> (Inl ex, e4)
                      | (Inr freed, e4) \<Rightarrow>
                          (case vector_at (command_buffers e4) (current_swapchain_index e4) of
                             Inl ex \<Rightarrow> (Inl ex, e4)
                           | Inr command_buffer \<Rightarrow>
                               (case vector_at (render_finished_semaphores e4) (current_frame e4) of
                                  Inl ex \<Rightarrow> (Inl ex, e4)
                                | Inr render_finished \<Rightarrow>
                                    (case NOVA_THROW_IF_VK_ERROR (vkQueueSubmit_result drv)
                                            render_engine_rendering_exception of
                                       Inl ex \<Rightarrow> (Inl ex, e4)
                                     | Inr u \<Rightarrow>
                                         (let e5 = e4\<lparr>calls := calls e4 @
                                                    [vkQueueSubmit_graphics command_buffer
                                                       image_available render_finished fence,
                                                     vkQueuePresentKHR render_finished
                                                       (current_swapchain_index e4)]\<rparr>
                                          in case cpp_mod (current_frame e5 + 1) MAX_FRAMES_IN_QUEUE of
                                               Inl ex \<Rightarrow> (Inl ex, e5)
                                             | Inr next \<Rightarrow> (Inr (), e5\<lparr>current_frame := next\<rparr>)))))))))"

subsection \<open>Notions used to state the properties\<close>

text \<open>The binding that \<^verbatim>\<open>add_resource_to_bindings\<close> makes for a reflected resource.\<close>

definition binding_of_resource :: "resource \<Rightarrow> vk_resource_binding" where
  "binding_of_resource r =
     \<lparr>binding = DecorationBinding r,
      descriptorType = VK_DESCRIPTOR_TYPE_COMBINED_IMAGE_SAMPLER,
      descriptorCount = 1,
      stageFlags = 0,
      pImmutableSamplers = None,
      set_index = DecorationDescriptorSet r\<rparr>"

text \<open>All resources reflected from one shader, and from the shader stages of a pipeline.\<close>

definition resources_of_shader :: "shader_source \<Rightarrow> resource list" where
  "resources_of_shader sh =
     sampled_images (get_shader_resources sh) @ uniform_buffers (get_shader_resources sh)"

definition resources_of_pipeline :: "pipeline_data \<Rightarrow> resource list" where
  "resources_of_pipeline data = concat (map resources_of_shader (shader_stages_of data))"

definition uniform_buffers_of_pipeline :: "pipeline_data \<Rightarrow> resource list" where
  "uniform_buffers_of_pipeline data =
     concat (map (\<lambda>sh. uniform_buffers (get_shader_resources sh)) (shader_stages_of data))"




text \<open>
  A client of the mesh streaming API: a sequence of \<^verbatim>\<open>add_mesh\<close> and \<^verbatim>\<open>delete_mesh\<close>
  calls. A call that throws is caught by the client, which goes on with the next call. The
  run collects the ids that \<^verbatim>\<open>add_mesh\<close> returned, in order.
\<close>

datatype mesh_op = Add mesh_data | Delete "32 word"

fun run_mesh_ops ::
  "'a block_allocator \<Rightarrow> driver \<Rightarrow> nat \<Rightarrow> mesh_op list \<Rightarrow> 'a engine \<Rightarrow> 32 word list \<times> 'a engine" where
  "run_mesh_ops ba drv sizeof_full_vertex [] e = ([], e)"
| "run_mesh_ops ba drv sizeof_full_vertex (Add input_mesh # ops) e =
     (case add_mesh ba drv sizeof_full_vertex input_mesh e of
        (Inl ex, e') \<Rightarrow> run_mesh_ops ba drv sizeof_full_vertex ops e'
      | (Inr mesh_id, e') \<Rightarrow>
          (case run_mesh_ops ba drv sizeof_full_vertex ops e' of
             (ids, e'') \<Rightarrow> (mesh_id # ids, e'')))"
| "run_mesh_ops ba drv sizeof_full_vertex (Delete mesh_id # ops) e =
     run_mesh_ops ba drv sizeof_full_vertex ops (snd (delete_mesh ba mesh_id e))"



text \<open>
  The entries of the table of pass descriptors that \<^verbatim>\<open>create_render_passes\<close> hands to the
  pass ordering (its local \<open>regular_render_passes\<close>), in the order of its iteration.
\<close>

definition pass_table :: "iteration_order \<Rightarrow> render_pass_data list \<Rightarrow> (string \<times> render_pass_data) list" where
  "pass_table iterate pass_list = iterate (snd (insert_passes pass_list ([], [])))"

text \<open>
  What every \<^verbatim>\<open>std::unordered_map\<close> guarantees of the table filled from \<open>pass_list\<close>,
  whatever its iteration order: the iteration presents every declared name once, and
  with a name the descriptor last assigned to it.
\<close>

definition last_declared :: "render_pass_data list \<Rightarrow> string \<Rightarrow> render_pass_data option" where
  "last_declared pass_list name = find (\<lambda>p. pass_name p = name) (rev pass_list)"

definition presents_table :: "(string \<times> render_pass_data) list \<Rightarrow> render_pass_data list \<Rightarrow> bool" where
  "presents_table entries pass_list \<longleftrightarrow>
     distinct (map fst entries)
     \<and> set (map fst entries) = set (map pass_name pass_list)
     \<and> list_all (\<lambda>entry. last_declared pass_list (fst entry) = Some (snd entry)) entries"

text \<open>
  One iteration order: a key that is new to the table goes to the front, and an
  assignment to a key that the table holds replaces the value where it stands. The
  node list of the GNU C++ library behaves so as long as every new key falls into a
  bucket that is still empty: each new node is linked in at the head of the list.
\<close>

fun assign_front ::
  "string \<times> render_pass_data \<Rightarrow> (string \<times> render_pass_data) list \<Rightarrow> (string \<times> render_pass_data) list" where
  "assign_front (k, v) entries =
     (if k \<in> set (map fst entries)
      then map (\<lambda>entry. if fst entry = k then (k, v) else entry) entries
      else (k, v) # entries)"

definition newest_first :: iteration_order where
  "newest_first history = fold assign_front history []"

subsection \<open>Example inputs\<close>

text \<open>
  A driver whose every call succeeds; an allocator with parts of \<open>part_size\<close> bytes that
  hands out the parts of one megabuffer (handle 100) one after the other, its state being
  the number of parts handed out; an engine with nothing loaded and two frames in flight;
  and the same engine with one compiled pass \<open>main\<close>.
\<close>

definition success_driver :: driver where
  "success_driver =
     \<lparr>vmaCreateBuffer_result = VK_SUCCESS,
      vkCreateRenderPass_result = VK_SUCCESS,
      vkCreateShaderModule_result = VK_SUCCESS,
      vkCreatePipelineLayout_result = VK_SUCCESS,
      vkCreateGraphicsPipelines_result = VK_SUCCESS,
      vkAcquireNextImageKHR_result = VK_SUCCESS,
      vkAcquireNextImageKHR_image = 0,
      vkQueueSubmit_result = VK_SUCCESS\<rparr>"

definition bump_allocator :: "nat \<Rightarrow> nat block_allocator" where
  "bump_allocator part_size =
     \<lparr>allocate_mesh =
        (\<lambda>vertex_size used.
           (Inr \<lparr>parts =
                   map (\<lambda>i. \<lparr>part_buffer = 100, offset = (used + i) * part_size\<rparr>)
                     [0 ..< (vertex_size + part_size - 1) div part_size]\<rparr>,
            used + (vertex_size + part_size - 1) div part_size)),
      free = (\<lambda>allocation used. used),
      get_buffer_part_size = (\<lambda>used. part_size)\<rparr>"

definition empty_engine :: "nat engine" where
  "empty_engine =
     \<lparr>mesh_manager = 0,
      mesh_staging_buffers = [],
      mesh_upload_queue = [],
      next_mesh_id = 0,
      meshes = [],
      shaderpack_loaded = False,
      render_passes = [],
      render_passes_by_order = [],
      pipelines = [],
      materials = [],
      dynamic_textures = [],
      current_frame = 0,
      current_swapchain_index = 0,
      submit_fences = [1, 2],
      image_available_semaphores = [3, 4],
      render_finished_semaphores = [5, 6],
      command_buffers = [7, 8, 9],
      mesh_rendering_done = 10,
      upload_to_megamesh_buffer_done = 11,
      mapped_memory = Map.empty,
      calls = [],
      log = [],
      next_handle = 12\<rparr>"

definition main_pass :: render_pass_data where
  "main_pass = \<lparr>pass_name = ''main'', texture_inputs = None, texture_outputs = []\<rparr>"

definition engine_with_main_pass :: "nat engine" where
  "engine_with_main_pass =
     empty_engine\<lparr>render_passes := [(''main'', \<lparr>pass = 12, rp_data = main_pass\<rparr>)],
                  render_passes_by_order := [''main''],
                  next_handle := 13\<rparr>"

text \<open>
  A pipeline whose vertex shader declares the uniform buffer \<open>per_frame\<close> at set 0,
  binding 0 and whose fragment shader declares the sampled image \<open>tex\<close> at set 0,
  binding 1; and one whose two stages both declare \<open>tex\<close>, at bindings 0 and 1.
\<close>

definition example_pipeline :: pipeline_data where
  "example_pipeline =
     \<lparr>pipeline_name = ''gbuffers'',
      target_pass = ''main'',
      vertex_shader =
        \<lparr>source = [],
         get_shader_resources =
           \<lparr>sampled_images = [],
            uniform_buffers =
              [\<lparr>res_name = ''per_frame'', DecorationDescriptorSet = 0, DecorationBinding = 0\<rparr>]\<rparr>\<rparr>,
      geometry_shader = None,
      tessellation_control_shader = None,
      tessellation_evaluation_shader = None,
      fragment_shader =
        Some \<lparr>source = [],
              get_shader_resources =
                \<lparr>sampled_images =
                   [\<lparr>res_name = ''tex'', DecorationDescriptorSet = 0, DecorationBinding = 1\<rparr>],
                 uniform_buffers = []\<rparr>\<rparr>\<rparr>"

definition conflicting_pipeline :: pipeline_data where
  "conflicting_pipeline =
     \<lparr>pipeline_name = ''gbuffers'',
      target_pass = ''main'',
      vertex_shader =
        \<lparr>source = [],
         get_shader_resources =
           \<lparr>sampled_images =
              [\<lparr>res_name = ''tex'', DecorationDescriptorSet = 0, DecorationBinding = 0\<rparr>],
            uniform_buffers = []\<rparr>\<rparr>,
      geometry_shader = None,
      tessellation_control_shader = None,
      tessellation_evaluation_shader = None,
      fragment_shader =
        Some \<lparr>source = [],
              get_shader_resources =
                \<lparr>sampled_images =
                   [\<lparr>res_name = ''tex'', DecorationDescriptorSet = 0, DecorationBinding = 1\<rparr>],
                 uniform_buffers = []\<rparr>\<rparr>\<rparr>"

text \<open>
  Meshes for a vertex record of two bytes: one with four vertices, which fills two parts of
  four bytes, and one with no vertex at all.
\<close>

definition four_vertex_mesh :: mesh_data where
  "four_vertex_mesh = \<lparr>vertex_data = [[1, 2], [3, 4], [5, 6], [7, 8]]\<rparr>"

definition empty_mesh :: mesh_data where
  "empty_mesh = \<lparr>vertex_data = []\<rparr>"






text \<open>
  Three passes: \<open>C\<close> writes the texture \<open>lit\<close>, \<open>A\<close> reads it, and \<open>B\<close> reads and
  writes nothing; and an engine that holds the dynamic texture \<open>lit\<close>.
\<close>

definition pass_A :: render_pass_data where
  "pass_A = \<lparr>pass_name = ''A'', texture_inputs = Some \<lparr>bound_textures = [''lit'']\<rparr>,
             texture_outputs = []\<rparr>"

definition pass_B :: render_pass_data where
  "pass_B = \<lparr>pass_name = ''B'', texture_inputs = None, texture_outputs = []\<rparr>"

definition pass_C :: render_pass_data where
  "pass_C = \<lparr>pass_name = ''C'', texture_inputs = None, texture_outputs = [''lit'']\<rparr>"

definition engine_with_lit :: "nat engine" where
  "engine_with_lit = create_textures [\<lparr>tex_name = ''lit'', pixel_format = RGBA16F\<rparr>] empty_engine"

section \<open>Properties\<close>

subsection \<open>Unordered maps and descriptor-set layouts\<close>

lemma map_of_um_assign: "map_of (um_assign k v m) = (map_of m)(k \<mapsto> v)"
  by (induction k v m rule: um_assign.induct) (auto simp: fun_eq_iff)

lemma keys_um_assign: "fst ` set (um_assign k v m) = insert k (fst ` set m)"
  by (induction k v m rule: um_assign.induct) (simp_all add: insert_commute)

lemma sorted_um_assign:
  "sorted_wrt (<) (map fst m) \<Longrightarrow> sorted_wrt (<) (map fst (um_assign k v m))"
proof (induction k v m rule: um_assign.induct)
  case (1 k v)
  then show ?case by simp
next
  case (2 k v k' v' m)
  from "2.prems" have less: "\<forall>x\<in>set m. k' < fst x" and srt: "sorted_wrt (<) (map fst m)"
    by auto
  show ?case
  proof (cases "k = k'")
    case True
    with "2.prems" show ?thesis by auto
  next
    case False
    show ?thesis
    proof (cases "k < k'")
      case True
      with False less srt show ?thesis by (auto intro: less_trans)
    next
      case False
      with \<open>k \<noteq> k'\<close> have "k' < k" by simp
      moreover have "\<forall>x\<in>set (um_assign k v m). k' < fst x"
      proof
        fix x assume "x \<in> set (um_assign k v m)"
        then have "fst x \<in> fst ` set (um_assign k v m)" by simp
        then have "fst x \<in> insert k (fst ` set m)"
          by (simp only: keys_um_assign)
        with \<open>k' < k\<close> less show "k' < fst x" by auto
      qed
      ultimately show ?thesis using False \<open>k \<noteq> k'\<close> "2.IH" [OF \<open>k \<noteq> k'\<close> False srt] by simp
    qed
  qed
qed

lemma length_strict_sorted_keys:
  fixes m :: "('k::linorder \<times> 'v) list"
  shows "sorted_wrt (<) (map fst m) \<Longrightarrow> length m = card (fst ` set m)"
proof -
  assume "sorted_wrt (<) (map fst m)"
  then have "distinct (map fst m)" by (simp add: strict_sorted_iff)
  then have "card (set (map fst m)) = length (map fst m)" by (rule distinct_card)
  then show ?thesis by simp
qed

lemma um_find_push_back:
  "um_find (um_push_back k x m) i =
     (if i = k then Some ((case um_find m k of None \<Rightarrow> [] | Some xs \<Rightarrow> xs) @ [x]) else um_find m i)"
  by (simp add: um_push_back_def um_find_def map_of_um_assign split: option.splits)

lemma sorted_um_push_back:
  "sorted_wrt (<) (map fst m) \<Longrightarrow> sorted_wrt (<) (map fst (um_push_back k x m))"
  by (simp add: um_push_back_def sorted_um_assign split: option.splits)

lemma sorted_group_bindings_by_set:
  "sorted_wrt (<) (map fst acc) \<Longrightarrow> sorted_wrt (<) (map fst (group_bindings_by_set bs acc))"
  by (induction bs arbitrary: acc) (simp_all add: Let_def sorted_um_push_back)

lemma um_find_group_bindings_by_set:
  "um_find (group_bindings_by_set bs acc) i =
     (case um_find acc i of
        None \<Rightarrow> if layout_bindings_of_set bs i = [] then None
                else Some (layout_bindings_of_set bs i)
      | Some xs \<Rightarrow> Some (xs @ layout_bindings_of_set bs i))"
proof (induction bs arbitrary: acc)
  case Nil
  then show ?case by (simp add: layout_bindings_of_set_def split: option.splits)
next
  case (Cons b bs)
  show ?case
    by (simp add: Cons.IH Let_def um_find_push_back layout_bindings_of_set_def
        split: option.splits)
qed

lemma layout_bindings_of_set_empty_iff:
  "layout_bindings_of_set bs i = [] \<longleftrightarrow> i \<notin> populated_sets bs"
  by (auto simp: layout_bindings_of_set_def populated_sets_def filter_empty_conv)

lemma um_find_grouped:
  "um_find (group_bindings_by_set bs []) i =
     (if i \<in> populated_sets bs then Some (layout_bindings_of_set bs i) else None)"
  unfolding um_find_group_bindings_by_set
  by (simp add: um_find_def layout_bindings_of_set_empty_iff)

lemma keys_grouped: "fst ` set (group_bindings_by_set bs []) = populated_sets bs"
proof -
  have "fst ` set (group_bindings_by_set bs []) = dom (map_of (group_bindings_by_set bs []))"
    by (simp add: dom_map_of_conv_image_fst)
  also have "\<dots> = populated_sets bs"
    using um_find_grouped [of bs] by (auto simp: um_find_def dom_def split: if_splits)
  finally show ?thesis .
qed

lemma length_grouped: "length (group_bindings_by_set bs []) = card (populated_sets bs)"
proof -
  have "sorted_wrt (<) (map fst (group_bindings_by_set bs []))"
    by (rule sorted_group_bindings_by_set) simp
  then show ?thesis by (simp add: length_strict_sorted_keys keys_grouped)
qed

lemma collect_create_infos_missing:
  "\<forall>i\<in>set xs. um_find m i \<noteq> None \<Longrightarrow> um_find m j = None \<Longrightarrow>
     collect_create_infos m (xs @ j # ys) = Inl j"
  by (induction xs) auto

lemma collect_create_infos_all:
  "\<forall>i\<in>set xs. um_find m i \<noteq> None \<Longrightarrow>
     collect_create_infos m xs =
       Inr (map (\<lambda>i. \<lparr>bindingCount = length (the (um_find m i)), pBindings = the (um_find m i)\<rparr>) xs)"
  by (induction xs) auto

lemma prefix_below_card:
  fixes P :: "nat set"
  assumes fin: "finite P" and m: "m \<in> P" and jm: "j < m" and below: "\<forall>l<j. l \<in> P"
  shows "j < card P"
proof -
  have "insert m {0..<j} \<subseteq> P" using below m by auto
  with fin have "card (insert m {0..<j}) \<le> card P" by (rule card_mono)
  moreover have "card (insert m {0..<j}) = Suc j" using jm by simp
  ultimately show ?thesis by simp
qed

lemma first_gap_below_card:
  fixes P :: "nat set"
  assumes fin: "finite P" and m: "m \<in> P" and i: "i < m" "i \<notin> P"
  shows "(LEAST j. j \<notin> P) < card P" and "(LEAST j. j \<notin> P) \<notin> P"
    and "\<forall>l < (LEAST j. j \<notin> P). l \<in> P"
proof -
  define j where "j = (LEAST j. j \<notin> P)"
  have notin: "j \<notin> P" unfolding j_def using i(2) by (rule LeastI)
  have below: "\<forall>l < j. l \<in> P" unfolding j_def using not_less_Least by blast
  have "j \<le> i" unfolding j_def using i(2) by (rule Least_le)
  with i(1) have "j < m" by simp
  from fin m this below have "j < card P" by (rule prefix_below_card)
  with notin below show "(LEAST j. j \<notin> P) < card P" and "(LEAST j. j \<notin> P) \<notin> P"
    and "\<forall>l < (LEAST j. j \<notin> P). l \<in> P"
    unfolding j_def by blast+
qed

lemma upt_split_at: "j < n \<Longrightarrow> [0 ..< n] = [0 ..< j] @ j # [Suc j ..< n]"
  using upt_add_eq_append [of 0 j "n - j"] by (simp add: upt_conv_Cons)

lemma finite_populated_sets: "finite (populated_sets bs)"
  by (simp add: populated_sets_def)

lemma create_descriptor_set_layouts_missing:
  assumes notin: "j \<notin> populated_sets bs" and below: "\<forall>l<j. l \<in> populated_sets bs"
    and card: "j < card (populated_sets bs)"
  shows "create_descriptor_set_layouts bs =
     (Inl (shader_layout_creation_failed (''Descriptor set '' @ to_string j @ '' not present'')),
      [(ERROR, ''Could not get information for descriptor set '' @ to_string j
         @ ''; most likely you skipped a descriptor set in your shader. Ensure that all shaders for this pipeline together don't have any gaps in the descriptor sets they declare'')])"
proof -
  let ?P = "populated_sets bs" and ?g = "group_bindings_by_set bs []"
  have "[0 ..< card ?P] = [0 ..< j] @ j # [Suc j ..< card ?P]"
    using card by (rule upt_split_at)
  then have split: "[0 ..< length ?g] = [0 ..< j] @ j # [Suc j ..< card ?P]"
    by (simp only: length_grouped)
  have present: "\<forall>l\<in>set [0 ..< j]. um_find ?g l \<noteq> None"
    using below by (simp add: um_find_grouped)
  have absent: "um_find ?g j = None" using notin by (simp add: um_find_grouped)
  have "collect_create_infos ?g ([0 ..< j] @ j # [Suc j ..< card ?P]) = Inl j"
    using present absent by (rule collect_create_infos_missing)
  then have "collect_create_infos ?g [0 ..< length ?g] = Inl j"
    by (simp only: split)
  then show ?thesis by (simp add: create_descriptor_set_layouts_def Let_def)
qed

lemma create_descriptor_set_layouts_contiguous:
  assumes "populated_sets bs = {0..k}"
  shows "create_descriptor_set_layouts bs =
     (Inr (map (\<lambda>i. \<lparr>bindingCount = length (layout_bindings_of_set bs i),
                      pBindings = layout_bindings_of_set bs i\<rparr>) [0 ..< Suc k]), [])"
proof -
  let ?g = "group_bindings_by_set bs []"
  have len: "length ?g = Suc k" by (simp add: length_grouped assms)
  have "\<forall>i\<in>set [0 ..< Suc k]. um_find ?g i \<noteq> None"
    by (auto simp: um_find_grouped assms)
  then have "collect_create_infos ?g [0 ..< Suc k] =
      Inr (map (\<lambda>i. \<lparr>bindingCount = length (the (um_find ?g i)), pBindings = the (um_find ?g i)\<rparr>)
        [0 ..< Suc k])"
    by (rule collect_create_infos_all)
  also have "\<dots> = Inr (map (\<lambda>i. \<lparr>bindingCount = length (layout_bindings_of_set bs i),
                      pBindings = layout_bindings_of_set bs i\<rparr>) [0 ..< Suc k])"
    by (auto simp: um_find_grouped assms)
  finally show ?thesis by (simp add: create_descriptor_set_layouts_def Let_def len del: upt_Suc)
qed

text \<open>
  Claim C6: when the descriptor-set indices that the merged bindings populate have a gap
  (an index below a populated one has no bindings), layout creation throws
  \<^verbatim>\<open>shader_layout_creation_failed\<close> and the message names a set index that has no
  bindings, namely the first one; when the populated indices are exactly \<open>0..k\<close>, it
  returns \<open>k + 1\<close> layouts, the one at position \<open>i\<close> made of the bindings of set \<open>i\<close>.
\<close>

theorem create_descriptor_set_layouts_gap_or_layouts:
  "(\<forall>m i. m \<in> populated_sets bs \<and> i < m \<and> i \<notin> populated_sets bs \<longrightarrow>
      (\<exists>j. j \<notin> populated_sets bs \<and> j < m \<and>
           fst (create_descriptor_set_layouts bs) =
             Inl (shader_layout_creation_failed
                    (''Descriptor set '' @ to_string j @ '' not present''))))
   \<and> (\<forall>j m. j \<notin> populated_sets bs \<and> (\<forall>l<j. l \<in> populated_sets bs)
          \<and> m \<in> populated_sets bs \<and> j < m \<longrightarrow>
        fst (create_descriptor_set_layouts bs) =
          Inl (shader_layout_creation_failed
                 (''Descriptor set '' @ to_string j @ '' not present'')))
   \<and> (\<forall>k. populated_sets bs = {0..k} \<longrightarrow>
        fst (create_descriptor_set_layouts bs) =
          Inr (map (\<lambda>i. \<lparr>bindingCount = length (layout_bindings_of_set bs i),
                          pBindings = layout_bindings_of_set bs i\<rparr>) [0 ..< Suc k]))"
proof (intro conjI allI impI)
  fix m i
  assume h: "m \<in> populated_sets bs \<and> i < m \<and> i \<notin> populated_sets bs"
  define j where "j = (LEAST j. j \<notin> populated_sets bs)"
  from h have gap: "j < card (populated_sets bs)" "j \<notin> populated_sets bs"
    "\<forall>l<j. l \<in> populated_sets bs"
    unfolding j_def using first_gap_below_card [OF finite_populated_sets, of m bs i] by blast+
  have "j \<le> i" unfolding j_def using h by (intro Least_le) simp
  with h have "j < m" by simp
  moreover have "fst (create_descriptor_set_layouts bs) =
      Inl (shader_layout_creation_failed (''Descriptor set '' @ to_string j @ '' not present''))"
    using create_descriptor_set_layouts_missing [OF gap(2) gap(3) gap(1)] by simp
  ultimately show "\<exists>j. j \<notin> populated_sets bs \<and> j < m \<and>
           fst (create_descriptor_set_layouts bs) =
             Inl (shader_layout_creation_failed
                    (''Descriptor set '' @ to_string j @ '' not present''))"
    using gap(2) by blast
next
  fix j m
  assume h: "j \<notin> populated_sets bs \<and> (\<forall>l<j. l \<in> populated_sets bs)
          \<and> m \<in> populated_sets bs \<and> j < m"
  then have "j < card (populated_sets bs)"
    using prefix_below_card [OF finite_populated_sets, of m bs j] by blast
  with h show "fst (create_descriptor_set_layouts bs) =
      Inl (shader_layout_creation_failed (''Descriptor set '' @ to_string j @ '' not present''))"
    using create_descriptor_set_layouts_missing [of j bs] by simp
next
  fix k
  assume "populated_sets bs = {0..k}"
  then show "fst (create_descriptor_set_layouts bs) =
          Inr (map (\<lambda>i. \<lparr>bindingCount = length (layout_bindings_of_set bs i),
                          pBindings = layout_bindings_of_set bs i\<rparr>) [0 ..< Suc k])"
    using create_descriptor_set_layouts_contiguous [of bs k] by simp
qed

theorem create_descriptor_set_layouts_gap_or_layouts_witness:
  "fst (create_descriptor_set_layouts
     [(''lightmap'', \<lparr>binding = 0, descriptorType = VK_DESCRIPTOR_TYPE_COMBINED_IMAGE_SAMPLER,
          descriptorCount = 1, stageFlags = 0, pImmutableSamplers = None, set_index = 2\<rparr>),
      (''tex'', \<lparr>binding = 0, descriptorType = VK_DESCRIPTOR_TYPE_COMBINED_IMAGE_SAMPLER,
          descriptorCount = 1, stageFlags = 0, pImmutableSamplers = None, set_index = 0\<rparr>)])
     = Inl (shader_layout_creation_failed (''Descriptor set '' @ to_string 1 @ '' not present''))
   \<and> fst (create_descriptor_set_layouts
     [(''lightmap'', \<lparr>binding = 3, descriptorType = VK_DESCRIPTOR_TYPE_COMBINED_IMAGE_SAMPLER,
          descriptorCount = 1, stageFlags = 0, pImmutableSamplers = None, set_index = 1\<rparr>),
      (''tex'', \<lparr>binding = 0, descriptorType = VK_DESCRIPTOR_TYPE_COMBINED_IMAGE_SAMPLER,
          descriptorCount = 1, stageFlags = 0, pImmutableSamplers = None, set_index = 0\<rparr>)])
     = Inr [\<lparr>bindingCount = 1,
             pBindings = [\<lparr>binding = 0, descriptorType = VK_DESCRIPTOR_TYPE_COMBINED_IMAGE_SAMPLER,
               descriptorCount = 1, stageFlags = VK_SHADER_STAGE_ALL, pImmutableSamplers = None\<rparr>]\<rparr>,
            \<lparr>bindingCount = 1,
             pBindings = [\<lparr>binding = 3, descriptorType = VK_DESCRIPTOR_TYPE_COMBINED_IMAGE_SAMPLER,
               descriptorCount = 1, stageFlags = VK_SHADER_STAGE_ALL, pImmutableSamplers = None\<rparr>]\<rparr>]"
proof -
  let ?gap = "[(''lightmap'', \<lparr>binding = 0, descriptorType = VK_DESCRIPTOR_TYPE_COMBINED_IMAGE_SAMPLER,
          descriptorCount = 1, stageFlags = 0, pImmutableSamplers = None, set_index = 2\<rparr>),
      (''tex'', \<lparr>binding = 0, descriptorType = VK_DESCRIPTOR_TYPE_COMBINED_IMAGE_SAMPLER,
          descriptorCount = 1, stageFlags = 0, pImmutableSamplers = None, set_index = 0\<rparr>)]"
  let ?ok = "[(''lightmap'', \<lparr>binding = 3, descriptorType = VK_DESCRIPTOR_TYPE_COMBINED_IMAGE_SAMPLER,
          descriptorCount = 1, stageFlags = 0, pImmutableSamplers = None, set_index = 1\<rparr>),
      (''tex'', \<lparr>binding = 0, descriptorType = VK_DESCRIPTOR_TYPE_COMBINED_IMAGE_SAMPLER,
          descriptorCount = 1, stageFlags = 0, pImmutableSamplers = None, set_index = 0\<rparr>)]"
  have gap: "populated_sets ?gap = {0, 2}" by (auto simp: populated_sets_def)
  have ok: "populated_sets ?ok = {0..1}" by (auto simp: populated_sets_def)
  have h: "(1::nat) \<notin> populated_sets ?gap \<and> (\<forall>l<1. l \<in> populated_sets ?gap)
      \<and> 2 \<in> populated_sets ?gap \<and> (1::nat) < 2"
    by (simp add: populated_sets_def)
  have g: "fst (create_descriptor_set_layouts ?gap)
      = Inl (shader_layout_creation_failed (''Descriptor set '' @ to_string 1 @ '' not present''))"
    using create_descriptor_set_layouts_gap_or_layouts
      [of ?gap, THEN conjunct2, THEN conjunct1, rule_format, of 1 2] h
    by simp
  have "fst (create_descriptor_set_layouts ?ok)
      = Inr (map (\<lambda>i. \<lparr>bindingCount = length (layout_bindings_of_set ?ok i),
                          pBindings = layout_bindings_of_set ?ok i\<rparr>) [0 ..< Suc 1])"
    using create_descriptor_set_layouts_gap_or_layouts
      [of ?ok, THEN conjunct2, THEN conjunct2, rule_format, of 1] ok
    by simp
  then have "fst (create_descriptor_set_layouts ?ok)
      = Inr [\<lparr>bindingCount = 1,
             pBindings = [\<lparr>binding = 0, descriptorType = VK_DESCRIPTOR_TYPE_COMBINED_IMAGE_SAMPLER,
               descriptorCount = 1, stageFlags = VK_SHADER_STAGE_ALL, pImmutableSamplers = None\<rparr>]\<rparr>,
            \<lparr>bindingCount = 1,
             pBindings = [\<lparr>binding = 3, descriptorType = VK_DESCRIPTOR_TYPE_COMBINED_IMAGE_SAMPLER,
               descriptorCount = 1, stageFlags = VK_SHADER_STAGE_ALL, pImmutableSamplers = None\<rparr>]\<rparr>]"
    by (simp add: layout_bindings_of_set_def)
  with g show ?thesis by (rule conjI)
qed

subsection \<open>Resource bindings of a pipeline\<close>

lemma set_um_assign: "set (um_assign k v m) \<subseteq> insert (k, v) (set m)"
  by (induction k v m rule: um_assign.induct) auto

lemma um_find_None_iff: "um_find m k = None \<longleftrightarrow> k \<notin> fst ` set m"
  by (simp add: um_find_def map_of_eq_None_iff)

lemma add_resource_to_bindings_entries:
  assumes "add_resource_to_bindings bs r = (bs', l)"
  shows "set bs' \<subseteq> insert (res_name r, binding_of_resource r) (set bs)"
    and "fst ` set bs' = insert (res_name r) (fst ` set bs)"
proof -
  show "set bs' \<subseteq> insert (res_name r, binding_of_resource r) (set bs)"
    using assms set_um_assign [of "res_name r" "binding_of_resource r" bs]
    by (auto simp: add_resource_to_bindings_def Let_def binding_of_resource_def
        split: option.splits if_splits)
  show "fst ` set bs' = insert (res_name r) (fst ` set bs)"
  proof (cases "um_find bs (res_name r)")
    case None
    with assms have "bs' = um_assign (res_name r) (binding_of_resource r) bs"
      by (simp add: add_resource_to_bindings_def Let_def binding_of_resource_def)
    then show ?thesis by (simp only: keys_um_assign)
  next
    case (Some b)
    then have "res_name r \<in> fst ` set bs"
      using um_find_None_iff [of bs "res_name r"] by simp
    moreover from Some assms have "bs' = bs"
      by (simp add: add_resource_to_bindings_def Let_def split: if_splits)
    ultimately show ?thesis by auto
  qed
qed

lemma add_resources_entries:
  "add_resources bs rs = (bs', l) \<Longrightarrow>
     set bs' \<subseteq> set bs \<union> (\<lambda>r. (res_name r, binding_of_resource r)) ` set rs
     \<and> fst ` set bs' = fst ` set bs \<union> res_name ` set rs"
proof (induction rs arbitrary: bs bs' l)
  case Nil
  then show ?case by simp
next
  case (Cons r rs)
  obtain b1 l1 where s1: "add_resource_to_bindings bs r = (b1, l1)" by (cases "add_resource_to_bindings bs r")
  obtain b2 l2 where s2: "add_resources b1 rs = (b2, l2)" by (cases "add_resources b1 rs")
  note e1 = add_resource_to_bindings_entries [OF s1]
  from Cons.prems have eq: "bs' = b2" by (simp add: s1 s2)
  have "set b2 \<subseteq> set bs \<union> (\<lambda>r. (res_name r, binding_of_resource r)) ` set (r # rs)"
    using Cons.IH [OF s2, THEN conjunct1] e1(1) by auto
  moreover have "fst ` set b2 = fst ` set bs \<union> res_name ` set (r # rs)"
    using Cons.IH [OF s2, THEN conjunct2] e1(2) by auto
  ultimately show ?case unfolding eq by (rule conjI)
qed

lemma get_shader_module_descriptors_entries:
  assumes "get_shader_module_descriptors sh bs = (bs', l)"
  shows "set bs' \<subseteq> set bs \<union> (\<lambda>r. (res_name r, binding_of_resource r)) ` set (resources_of_shader sh)"
    and "fst ` set bs' = fst ` set bs \<union> res_name ` set (resources_of_shader sh)"
proof -
  obtain b1 l1 where s1: "add_resources bs (sampled_images (get_shader_resources sh)) = (b1, l1)"
    by (cases "add_resources bs (sampled_images (get_shader_resources sh))")
  obtain b2 l2 where s2: "add_resources b1 (uniform_buffers (get_shader_resources sh)) = (b2, l2)"
    by (cases "add_resources b1 (uniform_buffers (get_shader_resources sh))")
  from assms s1 s2 have eq: "bs' = b2" by (simp add: get_shader_module_descriptors_def Let_def)
  show "set bs' \<subseteq> set bs \<union> (\<lambda>r. (res_name r, binding_of_resource r)) ` set (resources_of_shader sh)"
    using add_resources_entries [OF s1, THEN conjunct1] add_resources_entries [OF s2, THEN conjunct1]
    unfolding eq resources_of_shader_def by auto
  show "fst ` set bs' = fst ` set bs \<union> res_name ` set (resources_of_shader sh)"
    using add_resources_entries [OF s1, THEN conjunct2] add_resources_entries [OF s2, THEN conjunct2]
    unfolding eq resources_of_shader_def by auto
qed

lemma compile_stages_entries:
  "compile_stages drv shs bs = (Inr bs', l) \<Longrightarrow>
     set bs' \<subseteq> set bs \<union>
           (\<lambda>r. (res_name r, binding_of_resource r)) ` set (concat (map resources_of_shader shs))
     \<and> fst ` set bs' = fst ` set bs \<union> res_name ` set (concat (map resources_of_shader shs))"
proof (induction shs arbitrary: bs bs' l)
  case Nil
  then show ?case by simp
next
  case (Cons sh shs)
  obtain b1 l1 where s1: "get_shader_module_descriptors sh bs = (b1, l1)"
    by (cases "get_shader_module_descriptors sh bs")
  obtain r2 l2 where s2: "compile_stages drv shs b1 = (r2, l2)" by (cases "compile_stages drv shs b1")
  note e1 = get_shader_module_descriptors_entries [OF s1]
  from Cons.prems have "compile_stages drv shs b1 = (Inr bs', l2)"
    by (auto simp: s1 s2 NOVA_THROW_IF_VK_ERROR_def split: if_splits)
  note ih = Cons.IH [OF this]
  have "set bs' \<subseteq> set bs \<union>
      (\<lambda>r. (res_name r, binding_of_resource r)) ` set (concat (map resources_of_shader (sh # shs)))"
    using ih [THEN conjunct1] e1(1) by auto
  moreover have "fst ` set bs' = fst ` set bs \<union>
      res_name ` set (concat (map resources_of_shader (sh # shs)))"
    using ih [THEN conjunct2] e1(2) by auto
  ultimately show ?case by (rule conjI)
qed

lemma collect_create_infos_bindings:
  "collect_create_infos m xs = Inr infos \<Longrightarrow>
     \<forall>lay\<in>set infos. \<exists>i. um_find m i = Some (pBindings lay)"
proof (induction xs arbitrary: infos)
  case Nil
  then show ?case by simp
next
  case (Cons a xs)
  from Cons.prems obtain bs rest where a: "um_find m a = Some bs"
    and r: "collect_create_infos m xs = Inr rest"
    and i: "infos = \<lparr>bindingCount = length bs, pBindings = bs\<rparr> # rest"
    by (auto split: option.splits sum.splits)
  show ?case
  proof
    fix lay assume "lay \<in> set infos"
    with i have "lay = \<lparr>bindingCount = length bs, pBindings = bs\<rparr> \<or> lay \<in> set rest" by simp
    then show "\<exists>i. um_find m i = Some (pBindings lay)"
    proof
      assume "lay = \<lparr>bindingCount = length bs, pBindings = bs\<rparr>"
      with a have "um_find m a = Some (pBindings lay)" by simp
      then show ?thesis ..
    next
      assume "lay \<in> set rest"
      with Cons.IH [OF r] show ?thesis by blast
    qed
  qed
qed

lemma layout_bindings_types:
  assumes "create_descriptor_set_layouts bs = (Inr layouts, l)"
    and "lay \<in> set layouts" and "b \<in> set (pBindings lay)"
  shows "\<exists>nb\<in>set bs. descriptorType b = descriptorType (snd nb)
           \<and> descriptorCount b = descriptorCount (snd nb) \<and> binding b = binding (snd nb)"
proof -
  from assms(1) have "collect_create_infos (group_bindings_by_set bs [])
      [0 ..< length (group_bindings_by_set bs [])] = Inr layouts"
    by (simp add: create_descriptor_set_layouts_def Let_def split: sum.splits)
  from collect_create_infos_bindings [OF this] assms(2)
  obtain i where "um_find (group_bindings_by_set bs []) i = Some (pBindings lay)" by blast
  then have "pBindings lay = layout_bindings_of_set bs i"
    by (simp add: um_find_grouped split: if_splits)
  with assms(3) obtain nb where "nb \<in> set bs"
    and "b = \<lparr>binding = binding (snd nb), descriptorType = descriptorType (snd nb),
             descriptorCount = descriptorCount (snd nb), stageFlags = VK_SHADER_STAGE_ALL,
             pImmutableSamplers = pImmutableSamplers (snd nb)\<rparr>"
    unfolding layout_bindings_of_set_def by auto
  then show ?thesis by (intro bexI [of _ nb]) simp_all
qed

text \<open>
  Claim C10: every resource reflected from the shader stages of a pipeline, a uniform buffer
  as much as a sampled image, is recorded as the binding that takes its set and binding
  index from the reflection and has descriptor type
  \<^verbatim>\<open>VK_DESCRIPTOR_TYPE_COMBINED_IMAGE_SAMPLER\<close> and descriptor count 1; so no binding of the
  descriptor-set layouts made from them has type \<^verbatim>\<open>VK_DESCRIPTOR_TYPE_UNIFORM_BUFFER\<close>.
\<close>

theorem pipeline_bindings_are_combined_image_samplers:
  assumes "compile_stages drv (shader_stages_of data) [] = (Inr bindings, l)"
  shows "(\<forall>nb\<in>set bindings. \<exists>r\<in>set (resources_of_pipeline data).
            nb = (res_name r, binding_of_resource r))
    \<and> (\<forall>nb\<in>set bindings.
          descriptorType (snd nb) = VK_DESCRIPTOR_TYPE_COMBINED_IMAGE_SAMPLER
          \<and> descriptorCount (snd nb) = 1)
    \<and> (\<forall>r\<in>set (uniform_buffers_of_pipeline data).
          \<exists>b. um_find bindings (res_name r) = Some b
            \<and> descriptorType b = VK_DESCRIPTOR_TYPE_COMBINED_IMAGE_SAMPLER
            \<and> descriptorCount b = 1)
    \<and> (\<forall>layouts l2 lay b.
          create_descriptor_set_layouts bindings = (Inr layouts, l2)
            \<and> lay \<in> set layouts \<and> b \<in> set (pBindings lay) \<longrightarrow>
          descriptorType b = VK_DESCRIPTOR_TYPE_COMBINED_IMAGE_SAMPLER
            \<and> descriptorType b \<noteq> VK_DESCRIPTOR_TYPE_UNIFORM_BUFFER
            \<and> descriptorCount b = 1)"
proof -
  note ents = compile_stages_entries [OF assms]
  have prov: "\<forall>nb\<in>set bindings. \<exists>r\<in>set (resources_of_pipeline data).
            nb = (res_name r, binding_of_resource r)"
  proof -
    have "set bindings \<subseteq>
        (\<lambda>r. (res_name r, binding_of_resource r)) ` set (resources_of_pipeline data)"
      using ents [THEN conjunct1] by (simp add: resources_of_pipeline_def)
    then show ?thesis by blast
  qed
  have types: "\<forall>nb\<in>set bindings.
          descriptorType (snd nb) = VK_DESCRIPTOR_TYPE_COMBINED_IMAGE_SAMPLER
          \<and> descriptorCount (snd nb) = 1"
  proof
    fix nb assume "nb \<in> set bindings"
    with prov obtain r where "nb = (res_name r, binding_of_resource r)" by blast
    then show "descriptorType (snd nb) = VK_DESCRIPTOR_TYPE_COMBINED_IMAGE_SAMPLER
          \<and> descriptorCount (snd nb) = 1"
      by (simp add: binding_of_resource_def)
  qed
  have ubs: "\<forall>r\<in>set (uniform_buffers_of_pipeline data).
          \<exists>b. um_find bindings (res_name r) = Some b
            \<and> descriptorType b = VK_DESCRIPTOR_TYPE_COMBINED_IMAGE_SAMPLER
            \<and> descriptorCount b = 1"
  proof
    fix r assume "r \<in> set (uniform_buffers_of_pipeline data)"
    then have "r \<in> set (concat (map resources_of_shader (shader_stages_of data)))"
      by (auto simp: uniform_buffers_of_pipeline_def resources_of_shader_def)
    then have "res_name r \<in> fst ` set bindings" using ents [THEN conjunct2] by simp
    then have "um_find bindings (res_name r) \<noteq> None" by (simp add: um_find_None_iff)
    then obtain b where b: "um_find bindings (res_name r) = Some b" by blast
    then have "(res_name r, b) \<in> set bindings" by (simp add: um_find_def map_of_SomeD)
    with types b show "\<exists>b. um_find bindings (res_name r) = Some b
            \<and> descriptorType b = VK_DESCRIPTOR_TYPE_COMBINED_IMAGE_SAMPLER
            \<and> descriptorCount b = 1"
      by fastforce
  qed
  have lays: "\<forall>layouts l2 lay b.
          create_descriptor_set_layouts bindings = (Inr layouts, l2)
            \<and> lay \<in> set layouts \<and> b \<in> set (pBindings lay) \<longrightarrow>
          descriptorType b = VK_DESCRIPTOR_TYPE_COMBINED_IMAGE_SAMPLER
            \<and> descriptorType b \<noteq> VK_DESCRIPTOR_TYPE_UNIFORM_BUFFER
            \<and> descriptorCount b = 1"
  proof (intro allI impI)
    fix layouts l2 lay b
    assume h: "create_descriptor_set_layouts bindings = (Inr layouts, l2)
            \<and> lay \<in> set layouts \<and> b \<in> set (pBindings lay)"
    then obtain nb where "nb \<in> set bindings" and "descriptorType b = descriptorType (snd nb)"
      and "descriptorCount b = descriptorCount (snd nb)"
      using layout_bindings_types [of bindings layouts l2 lay b] by blast
    with types show "descriptorType b = VK_DESCRIPTOR_TYPE_COMBINED_IMAGE_SAMPLER
            \<and> descriptorType b \<noteq> VK_DESCRIPTOR_TYPE_UNIFORM_BUFFER
            \<and> descriptorCount b = 1"
      by simp
  qed
  from prov types ubs lays show ?thesis by (intro conjI)
qed

lemma example_pipeline_bindings:
  "compile_stages success_driver (shader_stages_of example_pipeline) [] =
     (Inr [(''per_frame'', binding_of_resource
              \<lparr>res_name = ''per_frame'', DecorationDescriptorSet = 0, DecorationBinding = 0\<rparr>),
           (''tex'', binding_of_resource
              \<lparr>res_name = ''tex'', DecorationDescriptorSet = 0, DecorationBinding = 1\<rparr>)], [])"
  by (simp add: shader_stages_of_def example_pipeline_def success_driver_def
      NOVA_THROW_IF_VK_ERROR_def get_shader_module_descriptors_def add_resource_to_bindings_def
      um_find_def binding_of_resource_def Let_def)

theorem pipeline_bindings_are_combined_image_samplers_witness:
  "\<exists>bindings b. compile_stages success_driver (shader_stages_of example_pipeline) [] = (Inr bindings, [])
     \<and> um_find bindings ''per_frame'' = Some b
     \<and> descriptorType b = VK_DESCRIPTOR_TYPE_COMBINED_IMAGE_SAMPLER
     \<and> descriptorCount b = 1"
proof -
  have "\<lparr>res_name = ''per_frame'', DecorationDescriptorSet = 0, DecorationBinding = 0\<rparr>
      \<in> set (uniform_buffers_of_pipeline example_pipeline)"
    by (simp add: uniform_buffers_of_pipeline_def shader_stages_of_def example_pipeline_def)
  with pipeline_bindings_are_combined_image_samplers [OF example_pipeline_bindings]
  show ?thesis using example_pipeline_bindings by fastforce
qed

text \<open>
  Claim C2 says that a uniform name reflected from two stages with different binding tuples
  makes pipeline compilation fail. The code logs an ERROR line that names the uniform and
  goes on: \<^verbatim>\<open>add_resource_to_bindings\<close> keeps the binding it saw first, and the pipeline
  \<open>conflicting_pipeline\<close>, whose stages declare \<open>tex\<close> at bindings 0 and 1, is built
  with binding 0.
\<close>

theorem conflicting_uniform_names_are_only_logged:
  "add_resource_to_bindings
     [(''tex'', binding_of_resource
         \<lparr>res_name = ''tex'', DecorationDescriptorSet = 0, DecorationBinding = 0\<rparr>)]
     \<lparr>res_name = ''tex'', DecorationDescriptorSet = 0, DecorationBinding = 1\<rparr>
   = ([(''tex'', binding_of_resource
         \<lparr>res_name = ''tex'', DecorationDescriptorSet = 0, DecorationBinding = 0\<rparr>)],
      [(ERROR, ''You have two different uniforms named tex in different shader stages. This is not allowed. Use unique names'')])
   \<and> fst (create_graphics_pipeline success_driver conflicting_pipeline engine_with_main_pass) = Inr ()
   \<and> map (\<lambda>p. (fst p, map pBindings (layout (snd p))))
        (pipelines (snd (create_graphics_pipeline success_driver conflicting_pipeline
           engine_with_main_pass)))
      = [(''gbuffers'',
          [[\<lparr>binding = 0, descriptorType = VK_DESCRIPTOR_TYPE_COMBINED_IMAGE_SAMPLER,
             descriptorCount = 1, stageFlags = VK_SHADER_STAGE_ALL, pImmutableSamplers = None\<rparr>]])]"
  by (simp add: add_resource_to_bindings_def um_find_def binding_of_resource_def binding_neq_def
      binding_eq_def create_graphics_pipeline_def shader_stages_of_def conflicting_pipeline_def
      success_driver_def NOVA_THROW_IF_VK_ERROR_def get_shader_module_descriptors_def
      create_descriptor_set_layouts_def um_push_back_def um_at_def um_insert_def
      engine_with_main_pass_def empty_engine_def main_pass_def Let_def)

subsection \<open>Mesh streaming\<close>



lemma get_or_allocate_mesh_staging_buffer_keeps:
  assumes "get_or_allocate_mesh_staging_buffer ba drv e = (r, e')"
  shows "mesh_upload_queue e' = mesh_upload_queue e" and "next_mesh_id e' = next_mesh_id e"
    and "mesh_manager e' = mesh_manager e" and "meshes e' = meshes e"
  using assms
  by (auto simp: get_or_allocate_mesh_staging_buffer_def split: if_splits sum.splits)

lemma upload_task_keeps:
  assumes "upload_task b m first n e = (r, e')"
  shows "mesh_upload_queue e' = mesh_upload_queue e" and "next_mesh_id e' = next_mesh_id e"
    and "mesh_manager e' = mesh_manager e" and "meshes e' = meshes e"
  using assms
  by (auto simp: upload_task_def split: if_splits sum.splits option.splits)

lemma upload_parts_keeps:
  "upload_parts ba drv m n is staging e = (r, e') \<Longrightarrow>
     mesh_upload_queue e' = mesh_upload_queue e \<and> next_mesh_id e' = next_mesh_id e
     \<and> mesh_manager e' = mesh_manager e \<and> meshes e' = meshes e
     \<and> (\<forall>st. r = Inr st \<longrightarrow> length st = length staging + length is)"
proof (induction "is" arbitrary: staging e r e')
  case Nil
  then show ?case by auto
next
  case (Cons i "is")
  obtain r1 e1 where g: "get_or_allocate_mesh_staging_buffer ba drv e = (r1, e1)"
    by (cases "get_or_allocate_mesh_staging_buffer ba drv e")
  note k1 = get_or_allocate_mesh_staging_buffer_keeps [OF g]
  show ?case
  proof (cases r1)
    case (Inl ex)
    with Cons.prems g have "r = Inl ex" "e' = e1" by simp_all
    with k1 show ?thesis by simp
  next
    case (Inr buf)
    obtain r2 e2 where u: "upload_task buf m (i * n) n e1 = (r2, e2)"
      by (cases "upload_task buf m (i * n) n e1")
    note k2 = upload_task_keeps [OF u]
    show ?thesis
    proof (cases r2)
      case (Inl ex)
      with Cons.prems g u Inr have "r = Inl ex" "e' = e2" by simp_all
      with k1 k2 show ?thesis by simp
    next
      case (Inr un)
      with Cons.prems g u \<open>r1 = Inr buf\<close>
      have "upload_parts ba drv m n is (staging @ [buf]) e2 = (r, e')" by simp
      from Cons.IH [OF this] k1 k2 show ?thesis by simp
    qed
  qed
qed


lemma add_four_vertex_mesh:
  "add_mesh (bump_allocator 4) success_driver 2 four_vertex_mesh empty_engine =
     (Inr 0,
      empty_engine
        \<lparr>mesh_manager := 2,
         mesh_upload_queue :=
           [\<lparr>staging_buffers = [\<lparr>buffer = 12, pMappedData = 12\<rparr>, \<lparr>buffer = 13, pMappedData = 13\<rparr>],
             mem = \<lparr>parts = [\<lparr>part_buffer = 100, offset = 0\<rparr>, \<lparr>part_buffer = 100, offset = 4\<rparr>]\<rparr>\<rparr>],
         next_mesh_id := 1,
         meshes :=
           [(0, \<lparr>memory = \<lparr>parts = [\<lparr>part_buffer = 100, offset = 0\<rparr>, \<lparr>part_buffer = 100, offset = 4\<rparr>]\<rparr>,
                 mesh = four_vertex_mesh\<rparr>)],
         mapped_memory := [12 \<mapsto> [1, 2, 0, 0], 13 \<mapsto> [5, 6, 0, 0]],
         calls := [vmaCreateBuffer 12, vmaCreateBuffer 13],
         next_handle := 14\<rparr>)"
  by (simp add: add_mesh_def bump_allocator_def success_driver_def four_vertex_mesh_def
      empty_engine_def cpp_div_def get_or_allocate_mesh_staging_buffer_def
      NOVA_THROW_IF_VK_ERROR_def upload_task_def memcpy_def Let_def upt_rec)
    (simp add: numeral_2_eq_2)



text \<open>
  Claim C1 says that the copy task of part \<open>i\<close> writes \<open>buffer_part_size\<close> bytes, the
  \<open>i\<close>-th part-sized slice of the vertex data. The task passes the number of vertices of a
  part to \<^verbatim>\<open>memcpy\<close> as the number of bytes. With vertex records of 2 bytes and parts of
  4 bytes, the mesh with the vertex bytes 1 to 8 should fill its two staging buffers with
  \<open>[1, 2, 3, 4]\<close> and \<open>[5, 6, 7, 8]\<close>; only the first two bytes of each are written.
\<close>

theorem add_mesh_copies_too_few_bytes:
  "fst (add_mesh (bump_allocator 4) success_driver 2 four_vertex_mesh empty_engine) = Inr 0
   \<and> mesh_upload_queue (snd (add_mesh (bump_allocator 4) success_driver 2 four_vertex_mesh empty_engine))
       = [\<lparr>staging_buffers = [\<lparr>buffer = 12, pMappedData = 12\<rparr>, \<lparr>buffer = 13, pMappedData = 13\<rparr>],
           mem = \<lparr>parts = [\<lparr>part_buffer = 100, offset = 0\<rparr>, \<lparr>part_buffer = 100, offset = 4\<rparr>]\<rparr>\<rparr>]
   \<and> mapped_memory (snd (add_mesh (bump_allocator 4) success_driver 2 four_vertex_mesh empty_engine)) 12
       = Some [1, 2, 0, 0]
   \<and> mapped_memory (snd (add_mesh (bump_allocator 4) success_driver 2 four_vertex_mesh empty_engine)) 13
       = Some [5, 6, 0, 0]"
  by (simp add: add_four_vertex_mesh)

lemma add_mesh_counter:
  assumes "add_mesh ba drv s m e = (r, e')"
  shows "(\<forall>ex. r = Inl ex \<longrightarrow> next_mesh_id e' = next_mesh_id e)
       \<and> (\<forall>mesh_id. r = Inr mesh_id \<longrightarrow> mesh_id = next_mesh_id e \<and> next_mesh_id e' = next_mesh_id e + 1)"
proof -
  obtain ra a' where al: "allocate_mesh ba (length (vertex_data m) * s) (mesh_manager e) = (ra, a')"
    by (cases "allocate_mesh ba (length (vertex_data m) * s) (mesh_manager e)")
  show ?thesis
  proof (cases ra)
    case (Inl ex)
    with al assms show ?thesis by (auto simp: add_mesh_def Let_def)
  next
    case (Inr am)
    show ?thesis
    proof (cases "cpp_div (get_buffer_part_size ba a') s")
      case (Inl ex)
      with al Inr assms show ?thesis by (auto simp: add_mesh_def Let_def)
    next
      case (Inr n)
      obtain r1 e1 where up: "upload_parts ba drv m n [0 ..< length (parts am)] []
          (e\<lparr>mesh_manager := a'\<rparr>) = (r1, e1)"
        by (cases "upload_parts ba drv m n [0 ..< length (parts am)] [] (e\<lparr>mesh_manager := a'\<rparr>)")
      from upload_parts_keeps [OF up] have k: "next_mesh_id e1 = next_mesh_id e" by simp
      show ?thesis
      proof (cases r1)
        case (Inl ex)
        with al \<open>ra = Inr am\<close> Inr up k assms show ?thesis by (auto simp: add_mesh_def Let_def)
      next
        case (Inr st)
        with al \<open>ra = Inr am\<close> \<open>cpp_div (get_buffer_part_size ba a') s = Inr n\<close> up k assms
        show ?thesis by (auto simp: add_mesh_def Let_def)
      qed
    qed
  qed
qed

lemma delete_mesh_counter: "next_mesh_id (snd (delete_mesh ba mesh_id e)) = next_mesh_id e"
  by (simp add: delete_mesh_def split: sum.splits)

lemma run_mesh_ops_ids:
  "run_mesh_ops ba drv s ops e = (ids, e') \<Longrightarrow>
     ids = map (\<lambda>k. next_mesh_id e + of_nat k) [0 ..< length ids]
     \<and> next_mesh_id e' = next_mesh_id e + of_nat (length ids)"
proof (induction ops arbitrary: e ids e')
  case Nil
  then show ?case by simp
next
  case (Cons op ops)
  show ?case
  proof (cases op)
    case (Add m)
    obtain r e1 where a: "add_mesh ba drv s m e = (r, e1)" by (cases "add_mesh ba drv s m e")
    note c = add_mesh_counter [OF a]
    show ?thesis
    proof (cases r)
      case (Inl ex)
      with Cons.prems Add a have "run_mesh_ops ba drv s ops e1 = (ids, e')" by simp
      from Cons.IH [OF this] c Inl show ?thesis by simp
    next
      case (Inr mesh_id)
      obtain ids1 e2 where r1: "run_mesh_ops ba drv s ops e1 = (ids1, e2)"
        by (cases "run_mesh_ops ba drv s ops e1")
      with Cons.prems Add a Inr have ids: "ids = mesh_id # ids1" and e': "e' = e2" by simp_all
      from c Inr have mid: "mesh_id = next_mesh_id e" and n1: "next_mesh_id e1 = next_mesh_id e + 1"
        by simp_all
      from Cons.IH [OF r1] have ih: "ids1 = map (\<lambda>k. next_mesh_id e1 + of_nat k) [0 ..< length ids1]"
        and ihn: "next_mesh_id e2 = next_mesh_id e1 + of_nat (length ids1)" by simp_all
      have "map (\<lambda>k. next_mesh_id e + of_nat k) [0 ..< length ids]
          = next_mesh_id e # map (\<lambda>k. next_mesh_id e + of_nat (Suc k)) [0 ..< length ids1]"
        unfolding ids by (simp add: upt_conv_Cons map_Suc_upt [symmetric] del: upt_Suc)
      also have "\<dots> = next_mesh_id e # map (\<lambda>k. next_mesh_id e1 + of_nat k) [0 ..< length ids1]"
        by (simp add: n1 ac_simps)
      also have "\<dots> = mesh_id # ids1"
        using ih [symmetric] by (simp only: mid)
      finally have "ids = map (\<lambda>k. next_mesh_id e + of_nat k) [0 ..< length ids]"
        unfolding ids by simp
      moreover have "next_mesh_id e' = next_mesh_id e + of_nat (length ids)"
        using ihn n1 by (simp add: ids e' add.assoc add.commute)
      ultimately show ?thesis by simp
    qed
  next
    case (Delete mesh_id)
    with Cons.prems
    have "run_mesh_ops ba drv s ops (snd (delete_mesh ba mesh_id e)) = (ids, e')" by simp
    from Cons.IH [OF this] show ?thesis by (simp add: delete_mesh_counter)
  qed
qed

lemma unat_counter:
  fixes n0 :: "32 word"
  assumes "unat n0 + k < 2 ^ 32"
  shows "unat (n0 + of_nat k) = unat n0 + k"
proof -
  have "unat (n0 + of_nat k) = (unat n0 + k mod 2 ^ 32) mod 2 ^ 32"
    by (simp add: unat_word_ariths unat_of_nat)
  also have "\<dots> = (unat n0 + k) mod 2 ^ 32" by (simp add: mod_add_right_eq)
  also have "\<dots> = unat n0 + k" using assms by simp
  finally show ?thesis .
qed

lemma counter_values_increase:
  fixes n0 :: "32 word"
  assumes "unat n0 + n \<le> 2 ^ 32"
  shows "sorted_wrt (<) (map (\<lambda>k. n0 + of_nat k) [0 ..< n])"
proof -
  have "\<forall>i j. i < j \<and> j < n \<longrightarrow> n0 + of_nat i < n0 + of_nat j"
  proof (intro allI impI)
    fix i j assume h: "i < j \<and> j < n"
    with assms have "unat n0 + i < 2 ^ 32" "unat n0 + j < 2 ^ 32" by simp_all
    then have "unat (n0 + of_nat i) = unat n0 + i" "unat (n0 + of_nat j) = unat n0 + j"
      by (simp_all add: unat_counter)
    with h show "n0 + of_nat i < n0 + of_nat j" by (simp add: word_less_nat_alt)
  qed
  then show ?thesis by (simp add: sorted_wrt_iff_nth_less)
qed

lemma add_empty_mesh_succeeds:
  "fst (add_mesh (bump_allocator 4) success_driver 2 empty_mesh e) = Inr (next_mesh_id e)"
  by (simp add: add_mesh_def bump_allocator_def empty_mesh_def cpp_div_def Let_def)

lemma run_adds_all_succeed:
  "length (fst (run_mesh_ops (bump_allocator 4) success_driver 2
                  (replicate n (Add empty_mesh)) e)) = n"
proof (induction n arbitrary: e)
  case 0
  then show ?case by simp
next
  case (Suc n)
  obtain r e1 where a: "add_mesh (bump_allocator 4) success_driver 2 empty_mesh e = (r, e1)"
    by (cases "add_mesh (bump_allocator 4) success_driver 2 empty_mesh e")
  with add_empty_mesh_succeeds [of e] have r: "r = Inr (next_mesh_id e)" by simp
  obtain ids e2 where rest: "run_mesh_ops (bump_allocator 4) success_driver 2
      (replicate n (Add empty_mesh)) e1 = (ids, e2)"
    by (cases "run_mesh_ops (bump_allocator 4) success_driver 2 (replicate n (Add empty_mesh)) e1")
  with Suc.IH [of e1] have "length ids = n" by simp
  with a r rest show ?case by simp
qed

lemma nth_counter_values:
  "i < n \<Longrightarrow> map (\<lambda>k. n0 + of_nat k) [0 ..< n] ! i = n0 + of_nat i"
  by simp

text \<open>
  Claim C8, as stated: from the engine with nothing loaded, whose counter is 0, a client
  adds a mesh \<open>2\<^sup>3\<^sup>2 + 1\<close> times. Every call succeeds, and the last call returns the id that
  the first call returned: the 32-bit counter has wrapped around.
\<close>

theorem mesh_id_reused_after_wrap_counterexample:
  "fst (run_mesh_ops (bump_allocator 4) success_driver 2
          (replicate 4294967297 (Add empty_mesh)) empty_engine) ! 4294967296
   = fst (run_mesh_ops (bump_allocator 4) success_driver 2
          (replicate 4294967297 (Add empty_mesh)) empty_engine) ! 0"
proof -
  let ?r = "run_mesh_ops (bump_allocator 4) success_driver 2
          (replicate 4294967297 (Add empty_mesh)) empty_engine"
  have len: "length (fst ?r) = 4294967297" by (rule run_adds_all_succeed)
  have "?r = (fst ?r, snd ?r)" by simp
  from run_mesh_ops_ids [OF this] len
  have ids: "fst ?r = map (\<lambda>k. next_mesh_id empty_engine + of_nat k) [0 ..< 4294967297]"
    by (simp only:)
  have "fst ?r ! 4294967296 = next_mesh_id empty_engine + of_nat 4294967296"
    unfolding ids by (rule nth_counter_values) simp
  moreover have "fst ?r ! 0 = next_mesh_id empty_engine + of_nat 0"
    unfolding ids by (rule nth_counter_values) simp
  moreover have "(of_nat 4294967296 :: 32 word) = of_nat 0" by simp
  ultimately show ?thesis by (simp only:)
qed

text \<open>
  Claim C8, amended: the ids that a client's calls of \<^verbatim>\<open>add_mesh\<close> return are the
  successive values of the 32-bit counter, whatever \<^verbatim>\<open>delete_mesh\<close> calls and failed calls
  lie between them; neither changes the counter. So as long as the counter does not wrap
  around, every id is strictly greater than all ids returned before, and none is reused.
\<close>

theorem mesh_ids_follow_counter:
  assumes "run_mesh_ops ba drv s ops e = (ids, e')"
  shows "ids = map (\<lambda>k. next_mesh_id e + of_nat k) [0 ..< length ids]
       \<and> next_mesh_id e' = next_mesh_id e + of_nat (length ids)
       \<and> (unat (next_mesh_id e) + length ids \<le> 2 ^ 32 \<longrightarrow> sorted_wrt (<) ids \<and> distinct ids)"
proof -
  note r = run_mesh_ops_ids [OF assms]
  have "sorted_wrt (<) ids \<and> distinct ids" if "unat (next_mesh_id e) + length ids \<le> 2 ^ 32"
  proof -
    from counter_values_increase [OF that] r have "sorted_wrt (<) ids" by simp
    then show ?thesis by (simp add: strict_sorted_iff)
  qed
  with r show ?thesis by blast
qed

lemma run_two_adds:
  "fst (run_mesh_ops (bump_allocator 4) success_driver 2
          [Add empty_mesh, Delete 0, Add empty_mesh] empty_engine) = [0, 1]"
  by (simp add: add_mesh_def delete_mesh_def bump_allocator_def success_driver_def empty_mesh_def
      empty_engine_def cpp_div_def um_at_def um_erase_def Let_def)

theorem mesh_ids_follow_counter_witness:
  "fst (run_mesh_ops (bump_allocator 4) success_driver 2
          [Add empty_mesh, Delete 0, Add empty_mesh] empty_engine) = [0, 1]
   \<and> (sorted_wrt (<) (fst (run_mesh_ops (bump_allocator 4) success_driver 2
          [Add empty_mesh, Delete 0, Add empty_mesh] empty_engine))
      \<and> distinct (fst (run_mesh_ops (bump_allocator 4) success_driver 2
          [Add empty_mesh, Delete 0, Add empty_mesh] empty_engine)))"
proof -
  let ?r = "run_mesh_ops (bump_allocator 4) success_driver 2
          [Add empty_mesh, Delete 0, Add empty_mesh] empty_engine"
  have "?r = (fst ?r, snd ?r)" by simp
  from mesh_ids_follow_counter [OF this]
  have imp: "unat (next_mesh_id empty_engine) + length (fst ?r) \<le> 2 ^ 32 \<longrightarrow>
      sorted_wrt (<) (fst ?r) \<and> distinct (fst ?r)"
    by (elim conjE)
  have "unat (next_mesh_id empty_engine) + length (fst ?r) \<le> 2 ^ 32"
    unfolding run_two_adds by (simp add: empty_engine_def)
  with imp have "sorted_wrt (<) (fst ?r) \<and> distinct (fst ?r)" by (rule mp)
  with run_two_adds show ?thesis by (rule conjI)
qed

subsection \<open>The frame loop\<close>

text \<open>
  Claim C9: when the acquire call reports an out-of-date or suboptimal surface,
  \<^verbatim>\<open>render_frame\<close> returns normally and the engine is as before but for the two calls
  made (the wait on the slot's fence and the acquire) and the image index the acquire
  wrote: no fence reset, no upload step, no submission, no present; the frame slot index,
  the mesh tables and queue and the compiled shaderpack are unchanged.
\<close>

theorem render_frame_skips_stale_frame:
  assumes "current_frame e < length (submit_fences e)"
    and "current_frame e < length (image_available_semaphores e)"
    and "vkAcquireNextImageKHR_result drv = VK_ERROR_OUT_OF_DATE_KHR
         \<or> vkAcquireNextImageKHR_result drv = VK_SUBOPTIMAL_KHR"
  shows "render_frame ba drv MAX_FRAMES_IN_QUEUE e =
           (Inr (),
            e\<lparr>calls := calls e @
                 [vkWaitForFences (submit_fences e ! current_frame e),
                  vkAcquireNextImageKHR (image_available_semaphores e ! current_frame e)],
              current_swapchain_index := vkAcquireNextImageKHR_image drv\<rparr>)"
  using assms by (auto simp: render_frame_def vector_at_def Let_def)

theorem render_frame_skips_stale_frame_witness:
  "render_frame (bump_allocator 4)
     (success_driver\<lparr>vkAcquireNextImageKHR_result := VK_SUBOPTIMAL_KHR,
                     vkAcquireNextImageKHR_image := 1\<rparr>) 2 empty_engine
   = (Inr (),
      empty_engine\<lparr>calls := [vkWaitForFences 1, vkAcquireNextImageKHR 3],
                   current_swapchain_index := 1\<rparr>)"
proof -
  have "current_frame empty_engine < length (submit_fences empty_engine)"
    and "current_frame empty_engine < length (image_available_semaphores empty_engine)"
    and "vkAcquireNextImageKHR_result (success_driver\<lparr>vkAcquireNextImageKHR_result := VK_SUBOPTIMAL_KHR,
                     vkAcquireNextImageKHR_image := 1\<rparr>) = VK_ERROR_OUT_OF_DATE_KHR
         \<or> vkAcquireNextImageKHR_result (success_driver\<lparr>vkAcquireNextImageKHR_result := VK_SUBOPTIMAL_KHR,
                     vkAcquireNextImageKHR_image := 1\<rparr>) = VK_SUBOPTIMAL_KHR"
    by (simp_all add: empty_engine_def)
  from render_frame_skips_stale_frame [OF this, of "bump_allocator 4" 2]
  show ?thesis by (simp add: empty_engine_def)
qed

subsection \<open>Shaderpack reload\<close>


















subsection \<open>Frame-graph pass ordering\<close>

lemma snd_insert_passes:
  "snd (insert_passes ps (rps, reg)) = reg @ map (\<lambda>p. (pass_name p, p)) ps"
  by (induction ps arbitrary: rps reg) simp_all

lemma compile_passes_keeps_order:
  "render_passes_by_order (snd (compile_passes drv names e)) = render_passes_by_order e"
proof (induction names arbitrary: e)
  case Nil
  then show ?case by simp
next
  case (Cons name names)
  show ?case
  proof (cases "um_at (render_passes e) name")
    case (Inl ex)
    then show ?thesis by simp
  next
    case (Inr rp)
    then show ?thesis
      by (auto simp: Cons.IH split: option.splits sum.splits)
  qed
qed

lemma create_render_passes_order:
  assumes "order_passes (pass_table iterate ps) = Inr order"
  shows "render_passes_by_order (snd (create_render_passes iterate drv ps e)) = order"
proof -
  obtain rps regular where i: "insert_passes ps (render_passes e, []) = (rps, regular)"
    by (cases "insert_passes ps (render_passes e, [])")
  then have "regular = snd (insert_passes ps (render_passes e, []))" by simp
  also have "\<dots> = snd (insert_passes ps ([], []))" by (simp only: snd_insert_passes)
  finally have "order_passes (iterate regular) = Inr order" using assms by (simp add: pass_table_def)
  with i show ?thesis by (simp add: create_render_passes_def compile_passes_keeps_order)
qed

lemma create_render_passes_cycle:
  assumes "order_passes (pass_table iterate ps) = Inl ex"
  shows "fst (create_render_passes iterate drv ps e) = Inl ex"
    and "render_passes_by_order (snd (create_render_passes iterate drv ps e)) = render_passes_by_order e"
proof -
  obtain rps regular where i: "insert_passes ps (render_passes e, []) = (rps, regular)"
    by (cases "insert_passes ps (render_passes e, [])")
  then have "regular = snd (insert_passes ps (render_passes e, []))" by simp
  also have "\<dots> = snd (insert_passes ps ([], []))" by (simp only: snd_insert_passes)
  finally have "order_passes (iterate regular) = Inl ex" using assms by (simp add: pass_table_def)
  with i show "fst (create_render_passes iterate drv ps e) = Inl ex"
    and "render_passes_by_order (snd (create_render_passes iterate drv ps e)) = render_passes_by_order e"
    by (simp_all add: create_render_passes_def)
qed

lemma last_declared_snoc:
  "last_declared (ps @ [p]) name = (if pass_name p = name then Some p else last_declared ps name)"
  by (simp add: last_declared_def)

lemma last_declared_name: "last_declared ps name = Some p \<Longrightarrow> pass_name p = name"
  by (auto simp: last_declared_def find_Some_iff)

lemma presents_table_names:
  assumes "presents_table entries ps"
  shows "map pass_name (map snd entries) = map fst entries"
proof -
  from assms have "\<forall>entry\<in>set entries. pass_name (snd entry) = fst entry"
    by (auto simp: presents_table_def list_all_iff dest: last_declared_name)
  then show ?thesis by simp
qed

lemma presents_table_assign_front:
  assumes "presents_table entries ps"
  shows "presents_table (assign_front (pass_name p, p) entries) (ps @ [p])"
proof (cases "pass_name p \<in> set (map fst entries)")
  case True
  let ?new = "map (\<lambda>entry. if fst entry = pass_name p then (pass_name p, p) else entry) entries"
  have keys: "map fst ?new = map fst entries" by (induction entries) auto
  have "distinct (map fst ?new)" using assms by (simp only: keys presents_table_def)
  moreover have "set (map fst ?new) = set (map pass_name (ps @ [p]))"
    using assms True unfolding keys presents_table_def by auto
  moreover have "list_all (\<lambda>entry. last_declared (ps @ [p]) (fst entry) = Some (snd entry)) ?new"
    using assms by (auto simp: presents_table_def list_all_iff last_declared_snoc)
  ultimately have "presents_table ?new (ps @ [p])" by (simp only: presents_table_def)
  with True show ?thesis by simp
next
  case False
  let ?new = "(pass_name p, p) # entries"
  have "distinct (map fst ?new)" using assms False by (simp add: presents_table_def)
  moreover have "set (map fst ?new) = set (map pass_name (ps @ [p]))"
    using assms by (auto simp: presents_table_def)
  moreover have "list_all (\<lambda>entry. last_declared (ps @ [p]) (fst entry) = Some (snd entry)) ?new"
    using assms False by (auto simp: presents_table_def list_all_iff last_declared_snoc)
  ultimately have "presents_table ?new (ps @ [p])" by (simp only: presents_table_def)
  with False show ?thesis by simp
qed

text \<open>
  The iteration order \<open>newest_first\<close> presents, for every list of descriptors, each
  declared name once with the descriptor last assigned to it, as every
  \<^verbatim>\<open>std::unordered_map\<close> does.
\<close>

lemma presents_table_newest_first: "presents_table (pass_table newest_first ps) ps"
proof (induction ps rule: rev_induct)
  case Nil
  show ?case
    by (simp add: pass_table_def newest_first_def presents_table_def)
next
  case (snoc p ps)
  have "pass_table newest_first (ps @ [p]) = assign_front (pass_name p, p) (pass_table newest_first ps)"
    by (simp add: pass_table_def newest_first_def snd_insert_passes)
  with presents_table_assign_front [OF snoc.IH, of p] show ?case by simp
qed

lemma order_passes_loop_result:
  "order_passes_loop all_passes remaining placed = Inr order \<Longrightarrow>
     \<exists>ps. order = placed @ map pass_name ps \<and> mset ps = mset remaining
       \<and> (\<forall>i<length ps. pass_ready all_passes (placed @ map pass_name (take i ps)) (ps ! i))"
proof (induction all_passes remaining placed arbitrary: order rule: order_passes_loop.induct)
  case (1 all_passes remaining placed)
  show ?case
  proof (cases "remaining = []")
    case True
    with "1.prems" have "order = placed" by (simp add: order_passes_loop.simps)
    with True show ?thesis by simp
  next
    case False
    with "1.prems" obtain p where f: "find (pass_ready all_passes placed) remaining = Some p"
      and rec: "order_passes_loop all_passes (remove1 p remaining) (placed @ [pass_name p]) = Inr order"
      by (simp add: order_passes_loop.simps [of all_passes remaining] split: option.splits)
    from f have pin: "p \<in> set remaining" and ready: "pass_ready all_passes placed p"
      by (auto simp: find_Some_iff)
    from "1.IH" [OF False f rec] obtain ps where o: "order = (placed @ [pass_name p]) @ map pass_name ps"
      and m: "mset ps = mset (remove1 p remaining)"
      and r: "\<forall>i<length ps. pass_ready all_passes ((placed @ [pass_name p]) @ map pass_name (take i ps)) (ps ! i)"
      by blast
    have "order = placed @ map pass_name (p # ps)" using o by simp
    moreover have "mset (p # ps) = mset remaining" using m pin by simp
    moreover have "\<forall>i<length (p # ps).
        pass_ready all_passes (placed @ map pass_name (take i (p # ps))) ((p # ps) ! i)"
    proof (intro allI impI)
      fix i assume "i < length (p # ps)"
      then show "pass_ready all_passes (placed @ map pass_name (take i (p # ps))) ((p # ps) ! i)"
        using ready r by (cases i) simp_all
    qed
    ultimately show ?thesis by blast
  qed
qed

lemma order_passes_result:
  assumes "order_passes table = Inr order"
  shows "mset order = mset (map pass_name (map snd table))"
    and "\<forall>a\<in>set (map snd table). \<forall>b\<in>set (map snd table). depends_on a b \<longrightarrow>
           (\<exists>i j. j < i \<and> i < length order \<and> order ! i = pass_name a \<and> order ! j = pass_name b)"
proof -
  let ?all = "map snd table"
  from assms obtain ps where o: "order = map pass_name ps" and m: "mset ps = mset ?all"
    and r: "\<forall>i<length ps. pass_ready ?all (map pass_name (take i ps)) (ps ! i)"
    unfolding order_passes_def using order_passes_loop_result [of ?all ?all "[]" order] by auto
  from o m show "mset order = mset (map pass_name ?all)" by (metis mset_map)
  show "\<forall>a\<in>set ?all. \<forall>b\<in>set ?all. depends_on a b \<longrightarrow>
           (\<exists>i j. j < i \<and> i < length order \<and> order ! i = pass_name a \<and> order ! j = pass_name b)"
  proof (intro ballI impI)
    fix a b assume a: "a \<in> set ?all" and b: "b \<in> set ?all" and d: "depends_on a b"
    from m have "set ps = set ?all" by (rule mset_eq_setD)
    with a have "a \<in> set ps" by (simp only:)
    then obtain i where i: "i < length ps" "ps ! i = a" unfolding in_set_conv_nth by blast
    with r have "pass_ready ?all (map pass_name (take i ps)) a" by auto
    with b d have "pass_name b \<in> set (map pass_name (take i ps))"
      by (auto simp: pass_ready_def list_all_iff)
    then obtain j where j: "j < length (take i ps)" "map pass_name (take i ps) ! j = pass_name b"
      by (auto simp: in_set_conv_nth)
    with i have "j < i" "order ! j = pass_name b" by (simp_all add: o)
    moreover from i have "i < length order" "order ! i = pass_name a" by (simp_all add: o)
    ultimately show "\<exists>i j. j < i \<and> i < length order \<and> order ! i = pass_name a \<and> order ! j = pass_name b"
      by blast
  qed
qed

lemma order_passes_loop_first_ready:
  "order_passes_loop all_passes remaining placed = Inr order \<Longrightarrow>
     \<exists>ps. order = placed @ map pass_name ps \<and> mset ps = mset remaining
       \<and> (\<forall>i<length ps.
             find (pass_ready all_passes (placed @ map pass_name (take i ps)))
               (fold remove1 (take i ps) remaining) = Some (ps ! i))"
proof (induction all_passes remaining placed arbitrary: order rule: order_passes_loop.induct)
  case (1 all_passes remaining placed)
  show ?case
  proof (cases "remaining = []")
    case True
    with "1.prems" have "order = placed" by (simp add: order_passes_loop.simps)
    with True show ?thesis by simp
  next
    case False
    with "1.prems" obtain p where f: "find (pass_ready all_passes placed) remaining = Some p"
      and rec: "order_passes_loop all_passes (remove1 p remaining) (placed @ [pass_name p]) = Inr order"
      by (simp add: order_passes_loop.simps [of all_passes remaining] split: option.splits)
    from f have pin: "p \<in> set remaining" by (auto simp: find_Some_iff)
    from "1.IH" [OF False f rec] obtain ps where o: "order = (placed @ [pass_name p]) @ map pass_name ps"
      and m: "mset ps = mset (remove1 p remaining)"
      and r: "\<forall>i<length ps.
             find (pass_ready all_passes ((placed @ [pass_name p]) @ map pass_name (take i ps)))
               (fold remove1 (take i ps) (remove1 p remaining)) = Some (ps ! i)"
      by blast
    have "order = placed @ map pass_name (p # ps)" using o by simp
    moreover have "mset (p # ps) = mset remaining" using m pin by simp
    moreover have "\<forall>i<length (p # ps).
        find (pass_ready all_passes (placed @ map pass_name (take i (p # ps))))
          (fold remove1 (take i (p # ps)) remaining) = Some ((p # ps) ! i)"
    proof (intro allI impI)
      fix i assume "i < length (p # ps)"
      then show "find (pass_ready all_passes (placed @ map pass_name (take i (p # ps))))
          (fold remove1 (take i (p # ps)) remaining) = Some ((p # ps) ! i)"
        using f r by (cases i) simp_all
    qed
    ultimately show ?thesis by blast
  qed
qed

lemma remove1_distinct_filter: "distinct xs \<Longrightarrow> remove1 x xs = filter (\<lambda>y. x \<noteq> y) xs"
  by (simp add: distinct_remove1_removeAll removeAll_filter_not_eq)

lemma fold_remove1_distinct:
  "distinct xs \<Longrightarrow> fold remove1 rs xs = filter (\<lambda>y. y \<notin> set rs) xs"
proof (induction rs arbitrary: xs)
  case Nil
  then show ?case by simp
next
  case (Cons r rs)
  from Cons.prems have "distinct (remove1 r xs)" by simp
  from Cons.IH [OF this] Cons.prems show ?case
    by (auto simp: remove1_distinct_filter intro: filter_cong)
qed

lemma find_filter_earlier:
  assumes d: "distinct xs" and f: "find P (filter Q xs) = Some (xs ! x)"
    and x: "x < length xs" and y: "y < x" and q: "Q (xs ! y)"
  shows "\<not> P (xs ! y)"
proof -
  from f obtain k where k: "k < length (filter Q xs)" "filter Q xs ! k = xs ! x"
    and before: "\<forall>j<k. \<not> P (filter Q xs ! j)"
    by (auto simp: find_Some_iff)
  have split: "filter Q xs = filter Q (take x xs) @ filter Q (drop x xs)"
    by (metis append_take_drop_id filter_append)
  have notin: "xs ! x \<notin> set (take x xs)"
    using d x by (metis Cons_nth_drop_Suc append_take_drop_id disjoint_insert(1) distinct_append list.simps(15))
  have "length (filter Q (take x xs)) \<le> k"
  proof (rule ccontr)
    assume "\<not> length (filter Q (take x xs)) \<le> k"
    then have lt: "k < length (filter Q (take x xs))" by simp
    then have "filter Q (take x xs) ! k \<in> set (filter Q (take x xs))" by (rule nth_mem)
    moreover from lt have "filter Q xs ! k = filter Q (take x xs) ! k"
      by (simp add: split nth_append)
    ultimately have "xs ! x \<in> set (filter Q (take x xs))" using k(2) by simp
    with notin show False by simp
  qed
  moreover from y x have "xs ! y \<in> set (take x xs)"
    by (auto simp: in_set_conv_nth intro!: exI [of _ y])
  with q have "xs ! y \<in> set (filter Q (take x xs))" by simp
  then obtain j where j: "j < length (filter Q (take x xs))" "filter Q (take x xs) ! j = xs ! y"
    unfolding in_set_conv_nth by blast
  ultimately have "j < k" by simp
  with before have "\<not> P (filter Q xs ! j)" by simp
  with j show ?thesis by (simp add: split nth_append)
qed

lemma order_passes_stable:
  assumes ok: "order_passes table = Inr order"
    and dn: "distinct (map pass_name (map snd table))"
    and ij: "i < j" "j < length order"
    and xy: "x < length table" "y < x"
    and nx: "pass_name (snd (table ! x)) = order ! i"
    and ny: "pass_name (snd (table ! y)) = order ! j"
  shows "\<exists>c\<in>set (map snd table). depends_on (snd (table ! y)) c \<and> pass_name c \<notin> set (take i order)"
proof -
  let ?V = "map snd table"
  have "distinct ?V \<and> inj_on pass_name (set ?V)"
    using dn unfolding distinct_map [of pass_name ?V] .
  then have dV: "distinct ?V" and inj: "inj_on pass_name (set ?V)" by blast+
  from ok obtain ps where o: "order = map pass_name ps" and m: "mset ps = mset ?V"
    and f: "\<forall>i<length ps.
             find (pass_ready ?V (map pass_name (take i ps))) (fold remove1 (take i ps) ?V)
               = Some (ps ! i)"
    unfolding order_passes_def using order_passes_loop_first_ready [of ?V ?V "[]" order] by auto
  from m have sets: "set ps = set ?V" by (rule mset_eq_setD)
  from m dV have dps: "distinct ps" by (metis mset_eq_imp_distinct_iff)
  from ij o have i: "i < length ps" and j: "j < length ps" by simp_all
  from xy have x: "x < length ?V" and y: "y < length ?V" by simp_all
  have vx: "?V ! x = ps ! i"
  proof (rule inj_onD [OF inj])
    show "pass_name (?V ! x) = pass_name (ps ! i)" using nx o i xy by simp
    show "?V ! x \<in> set ?V" using x by (rule nth_mem)
    show "ps ! i \<in> set ?V" using i sets nth_mem by blast
  qed
  have vy: "?V ! y = ps ! j"
  proof (rule inj_onD [OF inj])
    show "pass_name (?V ! y) = pass_name (ps ! j)" using ny o j xy by simp
    show "?V ! y \<in> set ?V" using y by (rule nth_mem)
    show "ps ! j \<in> set ?V" using j sets nth_mem by blast
  qed
  have "ps ! j \<notin> set (take i ps)"
  proof
    assume "ps ! j \<in> set (take i ps)"
    then obtain k where "k < length (take i ps)" "take i ps ! k = ps ! j"
      unfolding in_set_conv_nth by blast
    then have "k < i" "ps ! k = ps ! j" "k < length ps" using i by simp_all
    with dps j ij(1) show False by (simp add: nth_eq_iff_index_eq)
  qed
  with vy have q: "?V ! y \<notin> set (take i ps)" by simp
  from f i have "find (pass_ready ?V (map pass_name (take i ps)))
      (filter (\<lambda>q. q \<notin> set (take i ps)) ?V) = Some (?V ! x)"
    by (simp only: fold_remove1_distinct [OF dV] vx)
  from find_filter_earlier [OF dV this x xy(2) q]
  have "\<not> pass_ready ?V (map pass_name (take i ps)) (?V ! y)" .
  moreover have "map pass_name (take i ps) = take i order" by (simp add: o take_map)
  moreover have "?V ! y = snd (table ! y)" using xy by simp
  ultimately have "\<not> pass_ready ?V (take i order) (snd (table ! y))" by simp
  then show ?thesis by (auto simp: pass_ready_def list_all_iff)
qed

text \<open>
  Claim C5, amended. The table of pass descriptors is a \<^verbatim>\<open>std::unordered_map\<close>; the
  order of its iteration is taken as a function of the assignments made to it, and it
  presents each declared name once, with the descriptor last declared under it. When the
  pass ordering succeeds, the order of pass names that \<^verbatim>\<open>create_render_passes\<close> stores is
  the ordering of the table as iterated, whatever the engine state and the device:
  compiling the same list of descriptors again gives the same order. The order holds every
  declared pass name once; a pass that reads a texture another pass produces comes after
  its producer; and a pass is placed before one that precedes it in the iteration of the
  table only while that one still waits for a producer: ties fall to the iteration order
  of the table, not to the order of declaration.
\<close>

theorem pass_order_follows_table_iteration:
  assumes "presents_table (pass_table iterate ps) ps"
    and "order_passes (pass_table iterate ps) = Inr order"
  shows "(\<forall>drv (e :: 'a engine).
            render_passes_by_order (snd (create_render_passes iterate drv ps e)) = order)
    \<and> set order = set (map pass_name ps)
    \<and> distinct order
    \<and> (\<forall>a\<in>set (map snd (pass_table iterate ps)). \<forall>b\<in>set (map snd (pass_table iterate ps)).
          depends_on a b \<longrightarrow>
          (\<exists>i j. j < i \<and> i < length order \<and> order ! i = pass_name a \<and> order ! j = pass_name b))
    \<and> (\<forall>i j x y. i < j \<and> j < length order \<and> x < length (pass_table iterate ps) \<and> y < x
          \<and> pass_name (snd (pass_table iterate ps ! x)) = order ! i
          \<and> pass_name (snd (pass_table iterate ps ! y)) = order ! j \<longrightarrow>
          (\<exists>c\<in>set (map snd (pass_table iterate ps)).
             depends_on (snd (pass_table iterate ps ! y)) c \<and> pass_name c \<notin> set (take i order)))"
proof -
  let ?T = "pass_table iterate ps"
  note ok = assms(2)
  have 1: "\<forall>drv (e :: 'a engine).
            render_passes_by_order (snd (create_render_passes iterate drv ps e)) = order"
    using create_render_passes_order [OF ok] by blast
  have names: "map pass_name (map snd ?T) = map fst ?T"
    using assms(1) by (rule presents_table_names)
  have dT: "distinct (map fst ?T)" using assms(1) by (simp add: presents_table_def)
  have keys: "set (map fst ?T) = set (map pass_name ps)" using assms(1) by (simp add: presents_table_def)
  have m: "mset order = mset (map fst ?T)"
    using order_passes_result(1) [OF ok] by (simp only: names)
  from m have "set order = set (map fst ?T)" by (rule mset_eq_setD)
  with keys have 2: "set order = set (map pass_name ps)" by (simp only:)
  have 3: "distinct order" using m dT by (metis mset_eq_imp_distinct_iff)
  note 4 = order_passes_result(2) [OF ok]
  have dn: "distinct (map pass_name (map snd ?T))" using dT by (simp only: names)
  have 5: "\<forall>i j x y. i < j \<and> j < length order \<and> x < length ?T \<and> y < x
          \<and> pass_name (snd (?T ! x)) = order ! i
          \<and> pass_name (snd (?T ! y)) = order ! j \<longrightarrow>
          (\<exists>c\<in>set (map snd ?T). depends_on (snd (?T ! y)) c \<and> pass_name c \<notin> set (take i order))"
    using order_passes_stable [OF ok dn] by blast
  from 1 2 3 4 5 show ?thesis by (intro conjI)
qed

lemma pass_table_newest_first_CBA:
  "pass_table newest_first [pass_C, pass_B, pass_A] = [(''A'', pass_A), (''B'', pass_B), (''C'', pass_C)]"
  by (simp add: pass_table_def newest_first_def pass_A_def pass_B_def pass_C_def)

lemma order_passes_ABC:
  "order_passes [(''A'', pass_A), (''B'', pass_B), (''C'', pass_C)] = Inr [''B'', ''C'', ''A'']"
  by (simp add: order_passes_def order_passes_loop.simps pass_ready_def depends_on_def
      pass_reads_def pass_A_def pass_B_def pass_C_def)

theorem pass_order_follows_table_iteration_witness:
  "(\<forall>drv (e :: nat engine).
      render_passes_by_order (snd (create_render_passes newest_first drv [pass_C, pass_B, pass_A] e))
      = [''B'', ''C'', ''A''])
   \<and> set [''B'', ''C'', ''A''] = set (map pass_name [pass_C, pass_B, pass_A])
   \<and> distinct [''B'', ''C'', ''A'']"
proof -
  have ok: "order_passes (pass_table newest_first [pass_C, pass_B, pass_A]) = Inr [''B'', ''C'', ''A'']"
    by (simp only: pass_table_newest_first_CBA order_passes_ABC)
  have pt: "presents_table (pass_table newest_first [pass_C, pass_B, pass_A]) [pass_C, pass_B, pass_A]"
    unfolding pass_table_newest_first_CBA
    by (auto simp: presents_table_def last_declared_def pass_A_def pass_B_def pass_C_def)
  note T = pass_order_follows_table_iteration [OF pt ok, where ?'a = nat]
  from T show ?thesis by blast
qed

text \<open>
  Claim C5, as stated: \<open>B\<close> depends on no pass and no pass depends on it, and it is
  declared first; a tie broken by declaration order would place \<open>B\<close> before \<open>C\<close> and
  before \<open>A\<close>. With a table that is iterated newest key first, compilation succeeds and
  places \<open>B\<close> last.
\<close>

theorem pass_order_ignores_declaration_order_counterexample:
  "\<not> depends_on pass_B pass_C \<and> \<not> depends_on pass_C pass_B
   \<and> \<not> depends_on pass_B pass_A \<and> \<not> depends_on pass_A pass_B
   \<and> pass_table newest_first [pass_B, pass_C, pass_A]
       = [(''A'', pass_A), (''C'', pass_C), (''B'', pass_B)]
   \<and> fst (create_render_passes newest_first success_driver [pass_B, pass_C, pass_A] engine_with_lit)
       = Inr ()
   \<and> render_passes_by_order
       (snd (create_render_passes newest_first success_driver [pass_B, pass_C, pass_A] engine_with_lit))
     = [''C'', ''A'', ''B'']"
  by (simp add: depends_on_def pass_reads_def create_render_passes_def set_pass_data_def
      um_find_def order_passes_def order_passes_loop.simps pass_ready_def
      pass_table_def newest_first_def
      pass_A_def pass_B_def pass_C_def engine_with_lit_def empty_engine_def success_driver_def
      um_at_def NOVA_THROW_IF_VK_ERROR_def to_vk_attachment_info_def Let_def)

subsection \<open>Mesh option validation\<close>

text \<open>
  With a part size and a buffer size that are not zero, validation succeeds exactly when
  the three relationships hold, and each violated relationship is reported under the name
  of its field.
\<close>

lemma validate_mesh_options_nonzero:
  assumes "0 < s" and "0 < buffer_part_size opts" and "0 < new_buffer_size opts"
  shows "validate_mesh_options s opts = Inr () \<longleftrightarrow>
           s dvd buffer_part_size opts \<and>
           buffer_part_size opts dvd new_buffer_size opts \<and>
           new_buffer_size opts dvd max_total_allocation opts"
  using assms by (auto simp: validate_mesh_options_def cpp_mod_def mod_eq_0_iff_dvd)

lemma validate_mesh_options_first:
  assumes "0 < s" and "\<not> s dvd buffer_part_size opts"
  shows "names_field ''mesh.buffer_part_size'' (validate_mesh_options s opts)"
  using assms
  by (simp add: validate_mesh_options_def cpp_mod_def mod_eq_0_iff_dvd names_field_def)

lemma validate_mesh_options_second:
  assumes "0 < s" and "0 < buffer_part_size opts" and "s dvd buffer_part_size opts"
    and "\<not> buffer_part_size opts dvd new_buffer_size opts"
  shows "names_field ''mesh.new_buffer_size'' (validate_mesh_options s opts)"
  using assms
  by (simp add: validate_mesh_options_def cpp_mod_def mod_eq_0_iff_dvd names_field_def)

lemma validate_mesh_options_third:
  assumes "0 < s" and "0 < buffer_part_size opts" and "0 < new_buffer_size opts"
    and "s dvd buffer_part_size opts"
    and "buffer_part_size opts dvd new_buffer_size opts"
    and "\<not> new_buffer_size opts dvd max_total_allocation opts"
  shows "names_field ''mesh.max_total_allocation'' (validate_mesh_options s opts)"
  using assms
  by (simp add: validate_mesh_options_def cpp_mod_def mod_eq_0_iff_dvd names_field_def)

text \<open>
  Claim C7 fails on the code. At the options \<open>(16, 0, 256)\<close> the ceiling is not a
  multiple of the buffer size, and at \<open>(0, 64, 256)\<close> the buffer size is not a multiple
  of the part size; the other relationships hold. In both cases validation neither
  succeeds nor fails with an error that names the violated field: the check of the violated
  relationship takes a remainder by zero, which is undefined behaviour.
\<close>

theorem validate_mesh_options_divides_by_zero:
  "(4::nat) dvd 16 \<and> (16::nat) dvd 0 \<and> \<not> (0::nat) dvd 256
   \<and> validate_mesh_options 4
       \<lparr>buffer_part_size = 16, new_buffer_size = 0, max_total_allocation = 256\<rparr>
     = Inl undefined_behaviour
   \<and> \<not> names_field ''mesh.max_total_allocation''
         (validate_mesh_options 4
            \<lparr>buffer_part_size = 16, new_buffer_size = 0, max_total_allocation = 256\<rparr>)
   \<and> (4::nat) dvd 0 \<and> \<not> (0::nat) dvd 64 \<and> (64::nat) dvd 256
   \<and> validate_mesh_options 4
       \<lparr>buffer_part_size = 0, new_buffer_size = 64, max_total_allocation = 256\<rparr>
     = Inl undefined_behaviour
   \<and> \<not> names_field ''mesh.new_buffer_size''
         (validate_mesh_options 4
            \<lparr>buffer_part_size = 0, new_buffer_size = 64, max_total_allocation = 256\<rparr>)"
  by (simp add: validate_mesh_options_def cpp_mod_def names_field_def)

end
